theory Spec2Isabelle
  imports Complex_Main "HOL-Library.Sublist"
begin

unbundle bit_operations_syntax

section \<open>Strings as the server uses them\<close>

text \<open>
  JavaScript strings are modelled as \<^typ>\<open>string\<close>. The server only looks at ASCII
  characters of its inputs: every other character is removed by the \<open>[^0-9a-f]\<close> filter or
  rejected by the hexadecimal tests of the ethers library, whatever its case.
\<close>

definition toLowerChar :: "char \<Rightarrow> char" where
  "toLowerChar c =
     (case map_of (zip ''ABCDEFGHIJKLMNOPQRSTUVWXYZ'' ''abcdefghijklmnopqrstuvwxyz'') c of
        Some d \<Rightarrow> d | None \<Rightarrow> c)"

definition toUpperChar :: "char \<Rightarrow> char" where
  "toUpperChar c =
     (case map_of (zip ''abcdefghijklmnopqrstuvwxyz'' ''ABCDEFGHIJKLMNOPQRSTUVWXYZ'') c of
        Some d \<Rightarrow> d | None \<Rightarrow> c)"

definition toLowerCase :: "string \<Rightarrow> string" where
  "toLowerCase s = map toLowerChar s"

text \<open>\<open>s.endsWith(t)\<close>\<close>

definition endsWith :: "string \<Rightarrow> string \<Rightarrow> bool" where
  "endsWith s t = (length t \<le> length s \<and> drop (length s - length t) s = t)"

text \<open>\<open>s.slice(-n)\<close>: the last \<open>n\<close> characters, the whole string when it is shorter.\<close>

definition slice_last :: "nat \<Rightarrow> string \<Rightarrow> string" where
  "slice_last n s = drop (length s - n) s"

text \<open>The character classes \<open>[0-9a-f]\<close> and \<open>[0-9a-fA-F]\<close> of the regular expressions.\<close>

definition is_lower_hex :: "char \<Rightarrow> bool" where
  "is_lower_hex c = (c \<in> set ''0123456789abcdef'')"

definition is_hex :: "char \<Rightarrow> bool" where
  "is_hex c = (c \<in> set ''0123456789abcdefABCDEF'')"

section \<open>Bytes and hexadecimal strings (ethers.utils, Buffer)\<close>

text \<open>
  A byte of a \<open>Uint8Array\<close> or \<open>Buffer\<close> is an \<^typ>\<open>int\<close> in \<open>0..255\<close>; the functions
  that read bytes mask them, as the library does.
\<close>

type_synonym byte = int

text \<open>
  What the code throws. An argument error of ethers is kept by its reason; its message is
  the reason followed, in parentheses, by the name and the value of the argument, the
  error code and the version of the library.
\<close>

datatype error =
    ArgumentError string  \<comment> \<open>\<open>logger.throwArgumentError(reason, ...)\<close> of ethers\<close>
  | Error string          \<comment> \<open>\<open>throw new Error(message)\<close>\<close>

text \<open>The value of one hexadecimal digit, as \<open>parseInt(_, 16)\<close> reads it.\<close>

definition hex_value :: "char \<Rightarrow> int" where
  "hex_value c =
     (case map_of (zip ''0123456789abcdefABCDEF''
                       [0, 1, 2, 3, 4, 5, 6, 7, 8, 9, 10, 11, 12, 13, 14, 15, 10, 11, 12, 13, 14, 15]) c of
        Some v \<Rightarrow> v | None \<Rightarrow> 0)"

text \<open>
  The loop of \<open>arrayify\<close> over a string of hexadecimal digits:
  \<open>for (i = 0; i < hex.length; i += 2) result.push(parseInt(hex.substring(i, i + 2), 16))\<close>.
\<close>

fun hex_decode :: "string \<Rightarrow> byte list" where
  "hex_decode (a # b # cs) = (16 * hex_value a + hex_value b) # hex_decode cs"
| "hex_decode [a] = [hex_value a]"
| "hex_decode [] = []"

text \<open>\<open>isHexString(value)\<close>: the string matches \<open>^0x[0-9A-Fa-f]*$\<close>; with a length, it
  also has exactly that many bytes.\<close>

definition isHexString :: "string \<Rightarrow> bool" where
  "isHexString v = (take 2 v = ''0x'' \<and> list_all is_hex (drop 2 v))"

definition isHexStringLen :: "string \<Rightarrow> nat \<Rightarrow> bool" where
  "isHexStringLen v n = (isHexString v \<and> length v = 2 + 2 * n)"

text \<open>\<open>ethers.utils.arrayify\<close> on a string, without options: a hexadecimal string of
  even length becomes its bytes, any other string throws. The inputs of the derivation are
  strings here, as the interface of the server has them; \<open>arrayify\<close> also takes a number
  or an array of bytes, and those branches are not part of the model.\<close>

definition arrayify :: "string \<Rightarrow> error + byte list" where
  "arrayify v =
     (if isHexString v then
        (let hex = drop 2 v in
         if odd (length hex) then Inl (ArgumentError ''hex data is odd-length'')
         else Inr (hex_decode hex))
      else Inl (ArgumentError ''invalid arrayify value''))"

text \<open>\<open>ethers.utils.concat(items)\<close>: every item goes through \<open>arrayify\<close>, in order, and
  the byte arrays are laid one after the other.\<close>

fun concat_items :: "string list \<Rightarrow> error + byte list" where
  "concat_items [] = Inr []"
| "concat_items (v # vs) =
     (case arrayify v of
        Inl e \<Rightarrow> Inl e
      | Inr b \<Rightarrow> (case concat_items vs of Inl e \<Rightarrow> Inl e | Inr bs \<Rightarrow> Inr (b @ bs)))"

text \<open>Two lower-case digits per byte: \<open>HexCharacters[(v & 0xf0) >> 4] + HexCharacters[v & 0x0f]\<close>
  in ethers, and what \<open>Buffer.toString('hex')\<close> gives.\<close>

definition hex_digit :: "int \<Rightarrow> char" where
  "hex_digit n = ''0123456789abcdef'' ! nat n"

definition hexlify_byte :: "byte \<Rightarrow> string" where
  "hexlify_byte b = [hex_digit (drop_bit 4 (b AND 0xF0)), hex_digit (b AND 0x0F)]"

definition hexlify :: "byte list \<Rightarrow> string" where
  "hexlify bs = concat (map hexlify_byte bs)"

section \<open>Keccak-256 (the hash behind \<open>ethers.utils.keccak256\<close>)\<close>

text \<open>
  The sponge of the Keccak submission with rate 1088 and capacity 512, padding byte
  \<open>0x01\<close>, over the permutation Keccak-f[1600]. The state is the list of its 25 lanes,
  lane \<open>(x, y)\<close> at position \<open>x + 5 * y\<close>; a lane is a 64-bit value held in an
  \<^typ>\<open>int\<close>, with the wrap-around of the rotation written out.
\<close>

type_synonym lane = int

definition rotl64 :: "nat \<Rightarrow> lane \<Rightarrow> lane" where
  "rotl64 n w = (push_bit n w AND 0xFFFFFFFFFFFFFFFF) OR drop_bit (64 - n) w"

definition not64 :: "lane \<Rightarrow> lane" where
  "not64 w = w XOR 0xFFFFFFFFFFFFFFFF"

definition RC :: "lane list" where
  "RC = [0x0000000000000001, 0x0000000000008082, 0x800000000000808A, 0x8000000080008000,
         0x000000000000808B, 0x0000000080000001, 0x8000000080008081, 0x8000000000008009,
         0x000000000000008A, 0x0000000000000088, 0x0000000080008009, 0x000000008000000A,
         0x000000008000808B, 0x800000000000008B, 0x8000000000008089, 0x8000000000008003,
         0x8000000000008002, 0x8000000000000080, 0x000000000000800A, 0x800000008000000A,
         0x8000000080008081, 0x8000000000008080, 0x0000000080000001, 0x8000000080008008]"

definition ROT :: "nat list" where
  "ROT = [ 0,  1, 62, 28, 27,
          36, 44,  6, 55, 20,
           3, 10, 43, 25, 39,
          41, 45, 15, 21,  8,
          18,  2, 61, 56, 14]"

text \<open>Step pi moves lane \<open>(x, y)\<close> to \<open>(y, 2x + 3y)\<close>: position \<open>i\<close> of the result
  takes the lane at position \<open>PI ! i\<close>.\<close>

definition PI :: "nat list" where
  "PI = [ 0,  6, 12, 18, 24,
          3,  9, 10, 16, 22,
          1,  7, 13, 19, 20,
          4,  5, 11, 17, 23,
          2,  8, 14, 15, 21]"

fun chunks :: "nat \<Rightarrow> 'a list \<Rightarrow> 'a list list" where
  "chunks n [] = []"
| "chunks n xs = (if n = 0 then [xs] else take n xs # chunks n (drop n xs))"

definition theta :: "lane list \<Rightarrow> lane list" where
  "theta a =
     (let rows = chunks 5 a;
          c = foldl (map2 (XOR)) (hd rows) (tl rows);
          d = map2 (XOR) (rotate 4 c) (map (rotl64 1) (rotate1 c))
      in concat (map (map2 (XOR) d) rows))"

definition rho :: "lane list \<Rightarrow> lane list" where
  "rho a = map2 rotl64 ROT a"

definition pi :: "lane list \<Rightarrow> lane list" where
  "pi a = map (nth a) PI"

definition chi_row :: "lane list \<Rightarrow> lane list" where
  "chi_row r = map2 (XOR) r (map2 (AND) (map not64 (rotate1 r)) (rotate 2 r))"

definition chi :: "lane list \<Rightarrow> lane list" where
  "chi b = concat (map chi_row (chunks 5 b))"

definition iota :: "lane \<Rightarrow> lane list \<Rightarrow> lane list" where
  "iota rc a = (hd a XOR rc) # tl a"

definition keccak_round :: "lane list \<Rightarrow> lane \<Rightarrow> lane list" where
  "keccak_round a rc = iota rc (chi (pi (rho (theta a))))"

definition keccak_f :: "lane list \<Rightarrow> lane list" where
  "keccak_f a = foldl keccak_round a RC"

text \<open>Lanes are read from and written to bytes in little-endian order.\<close>

fun lane_of_bytes :: "byte list \<Rightarrow> lane" where
  "lane_of_bytes [] = 0"
| "lane_of_bytes (b # bs) = (b AND 0xFF) OR push_bit 8 (lane_of_bytes bs)"

fun bytes_of_lane :: "nat \<Rightarrow> lane \<Rightarrow> byte list" where
  "bytes_of_lane 0 w = []"
| "bytes_of_lane (Suc n) w = (w AND 0xFF) # bytes_of_lane n (drop_bit 8 w)"

definition pad :: "byte list \<Rightarrow> byte list" where
  "pad m =
     (let q = 136 - length m mod 136
      in if q = 1 then m @ [0x81] else m @ [0x01] @ replicate (q - 2) 0 @ [0x80])"

definition absorb :: "lane list \<Rightarrow> byte list \<Rightarrow> lane list" where
  "absorb s blk = keccak_f (map2 (XOR) s (map lane_of_bytes (chunks 8 blk) @ replicate 8 0))"

definition keccak256 :: "byte list \<Rightarrow> byte list" where
  "keccak256 m =
     concat (map (bytes_of_lane 8) (take 4 (foldl absorb (replicate 25 0) (chunks 136 (pad m)))))"

text \<open>\<open>ethers.utils.keccak256(data)\<close> on a byte array: the digest as a \<open>0x\<close> string.\<close>

definition ethers_keccak256 :: "byte list \<Rightarrow> string" where
  "ethers_keccak256 m = ''0x'' @ hexlify (keccak256 m)"

section \<open>Checksummed addresses (\<open>ethers.utils.getAddress\<close>)\<close>

text \<open>
  The loop of \<open>getChecksumAddress\<close>: for \<open>i = 0, 2, ..., 38\<close>, digit \<open>i\<close> is put in
  upper case when \<open>hashed[i >> 1] >> 4 >= 8\<close> and digit \<open>i + 1\<close> when
  \<open>(hashed[i >> 1] & 0x0f) >= 8\<close>.
\<close>

fun checksum_chars :: "string \<Rightarrow> byte list \<Rightarrow> string" where
  "checksum_chars (c1 # c2 # cs) (h # hs) =
     (if 8 \<le> drop_bit 4 h then toUpperChar c1 else c1) #
     (if 8 \<le> h AND 0x0F then toUpperChar c2 else c2) #
     checksum_chars cs hs"
| "checksum_chars cs hs = cs"

definition getChecksumAddress :: "string \<Rightarrow> error + string" where
  "getChecksumAddress address =
     (if \<not> isHexStringLen address 20 then Inl (ArgumentError ''invalid address'')
      else
        (let chars = drop 2 (toLowerCase address);
             expanded = map of_char chars
         in case arrayify (ethers_keccak256 expanded) of
              Inl e \<Rightarrow> Inl e
            | Inr hashed \<Rightarrow> Inr (''0x'' @ checksum_chars chars hashed)))"

text \<open>The test \<open>address.match(/([A-F].*[a-f])|([a-f].*[A-F])/)\<close>: the string has a letter
  of each case.\<close>

definition mixed_case :: "string \<Rightarrow> bool" where
  "mixed_case s = ((\<exists>c \<in> set s. c \<in> set ''ABCDEF'') \<and> (\<exists>c \<in> set s. c \<in> set ''abcdef''))"

text \<open>
  \<open>getAddress_0x rest\<close> is \<open>ethers.utils.getAddress('0x' + rest)\<close>, the only way the
  server calls it. A string that starts with \<open>0x\<close> matches \<open>^(0x)?[0-9a-fA-F]{40}$\<close>
  exactly when 40 hexadecimal digits follow the prefix, and never matches the pattern of an
  ICAP address, which starts with \<open>XE\<close>.
\<close>

definition getAddress_0x :: "string \<Rightarrow> error + string" where
  "getAddress_0x rest =
     (let address = ''0x'' @ rest in
      if length rest = 40 \<and> list_all is_hex rest then
        (case getChecksumAddress address of
           Inl e \<Rightarrow> Inl e
         | Inr result \<Rightarrow>
             if mixed_case address \<and> result \<noteq> address
             then Inl (ArgumentError ''bad address checksum'')
             else Inr result)
      else Inl (ArgumentError ''invalid address''))"

section \<open>The derivation: \<open>calculateCREATE2Address\<close>\<close>

definition calculateCREATE2Address :: "string \<Rightarrow> string \<Rightarrow> string \<Rightarrow> error + string" where
  "calculateCREATE2Address deployerAddress salt bytecodeHash =
     (let create2Prefix = ''0xff'' in
      case concat_items [create2Prefix, deployerAddress, salt, bytecodeHash] of
        Inl e \<Rightarrow> Inl e
      | Inr concatenated \<Rightarrow>
          (let hash = ethers_keccak256 concatenated
           in getAddress_0x (slice_last 40 hash)))"

section \<open>JavaScript numbers\<close>

text \<open>
  A number of JavaScript: a finite one, by its exact value, or one of the three others.
  The counter of the search is a number as well; the model counts it exactly, as a double
  does up to \<open>2^53\<close>, far above the 1000000 attempts that the handler allows.
\<close>

datatype number = Num rat | NaN | PlusInfinity | MinusInfinity

text \<open>\<open>Math.min(x, c)\<close> for a finite \<open>c\<close>.\<close>

fun math_min :: "number \<Rightarrow> rat \<Rightarrow> number" where
  "math_min (Num q) c = Num (min q c)"
| "math_min NaN c = NaN"
| "math_min PlusInfinity c = Num c"
| "math_min MinusInfinity c = MinusInfinity"

text \<open>\<open>n < x\<close> for a counter \<open>n\<close>; a comparison with \<open>NaN\<close> is false.\<close>

fun counter_less :: "nat \<Rightarrow> number \<Rightarrow> bool" where
  "counter_less n (Num q) = (of_nat n < q)"
| "counter_less n NaN = False"
| "counter_less n PlusInfinity = True"
| "counter_less n MinusInfinity = False"

section \<open>The search: \<open>findSaltForTermination\<close>\<close>

record MiningResult =
  r_salt :: string
  r_address :: string
  r_attempts :: nat

text \<open>
  \<open>crypto.randomBytes(32)\<close> is the environment: \<open>rnd k\<close> is the buffer returned by
  the call number \<open>k\<close>, and the position \<open>drawn\<close> in that sequence is threaded through
  the loop and returned with the outcome, so the second component of the result is the
  number of salts drawn. The variable \<open>attempts\<close> is the loop's own counter. The
  \<open>await\<close> every 1000 attempts hands control to the event loop and touches no variable
  of the search. An exception thrown by the derivation leaves the loop, as in the source.
  The loop need not end (\<open>maxAttempts\<close> may be \<open>Infinity\<close>): the result is \<open>None\<close> when
  it does not return.
\<close>

partial_function (option) findSalt_loop ::
  "(nat \<Rightarrow> byte list) \<Rightarrow> string \<Rightarrow> string \<Rightarrow> string \<Rightarrow> number \<Rightarrow> nat \<Rightarrow> nat
     \<Rightarrow> ((error + MiningResult) \<times> nat) option" where
  "findSalt_loop rnd deployerAddress bytecodeHash termination maxAttempts attempts drawn =
     (if counter_less attempts maxAttempts then
        (let randomBytes = rnd drawn;
             salt = ''0x'' @ hexlify randomBytes
         in case calculateCREATE2Address deployerAddress salt bytecodeHash of
              Inl e \<Rightarrow> Some (Inl e, Suc drawn)
            | Inr address \<Rightarrow>
                if endsWith (toLowerCase address) termination
                then Some (Inr \<lparr>r_salt = salt, r_address = address, r_attempts = attempts + 1\<rparr>,
                           Suc drawn)
                else findSalt_loop rnd deployerAddress bytecodeHash termination maxAttempts
                       (attempts + 1) (Suc drawn))
      else Some (Inl (Error ''Maximum attempts reached without finding suitable salt''), drawn))"

text \<open>The parameter \<open>maxAttempts\<close> has the default 1000000 (\<open>None\<close> is a call without it).\<close>

definition findSaltForTermination ::
  "(nat \<Rightarrow> byte list) \<Rightarrow> string \<Rightarrow> string \<Rightarrow> string \<Rightarrow> number option
     \<Rightarrow> ((error + MiningResult) \<times> nat) option" where
  "findSaltForTermination rnd deployerAddress bytecodeHash desiredTermination maxAttempts =
     (let termination = toLowerCase desiredTermination
      in findSalt_loop rnd deployerAddress bytecodeHash termination
           (case maxAttempts of None \<Rightarrow> Num 1000000 | Some m \<Rightarrow> m) 0 0)"

section \<open>The request handlers\<close>

text \<open>
  A field of the JSON body is \<open>None\<close> when it is absent; the fields of a request are
  named \<open>q_\<close> and those of a mining result \<open>r_\<close>, after the keys of the objects. The
  three text fields are strings, as the interface has them. The handler uses
  \<open>maxAttempts\<close> only as an argument of \<open>Math.min\<close>, which reads any value as a number:
  \<open>q_maxAttempts\<close> is that number (a JSON number is itself, whole or not, and
  \<open>Infinity\<close> when it is too large for a double; \<open>null\<close> and \<open>false\<close> read 0,
  \<open>true\<close> reads 1, a string reads the number it spells and \<open>NaN\<close> when it spells
  none, an array or an object reads as its string form does). The bodies of the
  responses are the objects the handlers send, with the HTTP status of the failures.
\<close>

record CalculateRequest =
  q_deployerAddress :: "string option"
  q_bytecodeHash :: "string option"
  q_desiredTermination :: "string option"
  q_maxAttempts :: "number option"

record DifficultyReport =
  valid :: bool
  cleaned :: string
  difficulty :: string
  estimatedTime :: string
  maxLength :: nat

text \<open>
  \<open>Failure status text\<close> is the body \<open>{success: false, error: text}\<close>. The message of an
  argument error of ethers is its reason followed by the argument, its value, the error
  code and the version of the library in parentheses; \<open>ArgumentFailure status reason\<close> is
  the body whose error text is such a message, of which the model keeps the reason.
\<close>

datatype response =
    Failure nat string                \<comment> \<open>status, \<open>{success: false, error}\<close>\<close>
  | ArgumentFailure nat string        \<comment> \<open>status, the reason of the error of ethers\<close>
  | MiningSuccess MiningResult string \<comment> \<open>\<open>{success: true, ...result, termination}\<close>\<close>
  | Report DifficultyReport           \<comment> \<open>\<open>{success: true, valid, cleaned, ...}\<close>\<close>

text \<open>\<open>!field\<close> on a string field: absent or empty.\<close>

definition missing :: "string option \<Rightarrow> bool" where
  "missing f = (case f of None \<Rightarrow> True | Some s \<Rightarrow> s = [])"

text \<open>\<open>s.toLowerCase().replace(/[^0-9a-f]/g, '')\<close>\<close>

definition clean :: "string \<Rightarrow> string" where
  "clean s = filter is_lower_hex (toLowerCase s)"

text \<open>The \<open>catch\<close> of a handler: status 500 and \<open>error.message\<close>.\<close>

fun caught :: "error \<Rightarrow> response" where
  "caught (Error m) = Failure 500 m"
| "caught (ArgumentError reason) = ArgumentFailure 500 reason"

text \<open>The second component of the result is the number of salts drawn; the result is
  \<open>None\<close> when the handler does not answer.\<close>

definition calculate_address ::
  "(nat \<Rightarrow> byte list) \<Rightarrow> CalculateRequest \<Rightarrow> (response \<times> nat) option" where
  "calculate_address rnd req =
     (if missing (q_deployerAddress req) \<or> missing (q_bytecodeHash req) \<or>
         missing (q_desiredTermination req)
      then Some (Failure 400 ''deployerAddress, bytecodeHash, and desiredTermination are required'', 0)
      else
        (let cleanTermination = clean (the (q_desiredTermination req)) in
         if length cleanTermination = 0 \<or> length cleanTermination > 8
         then Some (Failure 400 ''Invalid termination. Must be 1-8 hexadecimal characters.'', 0)
         else
           (case findSaltForTermination rnd (the (q_deployerAddress req)) (the (q_bytecodeHash req))
                   cleanTermination
                   (Some (math_min (case q_maxAttempts req of None \<Rightarrow> Num 100000 | Some m \<Rightarrow> m)
                            1000000)) of
              None \<Rightarrow> None
            | Some (Inr result, drawn) \<Rightarrow> Some (MiningSuccess result cleanTermination, drawn)
            | Some (Inl e, drawn) \<Rightarrow> Some (caught e, drawn))))"

definition validate_termination :: "string option \<Rightarrow> response" where
  "validate_termination termination =
     (if missing termination then Failure 400 ''termination is required''
      else
        (let cleaned = clean (the termination);
             isValid = (cleaned \<noteq> [] \<and> list_all is_lower_hex cleaned
                        \<and> length cleaned > 0 \<and> length cleaned \<le> 8)
         in Report
              (if isValid then
                 (let attempts = (16::nat) ^ length cleaned in
                  if attempts < 256 then
                    \<lparr>valid = isValid, cleaned = cleaned, difficulty = ''Very Easy'',
                     estimatedTime = ''Instant'', maxLength = 8\<rparr>
                  else if attempts < 4096 then
                    \<lparr>valid = isValid, cleaned = cleaned, difficulty = ''Easy'',
                     estimatedTime = ''Few seconds'', maxLength = 8\<rparr>
                  else if attempts < 65536 then
                    \<lparr>valid = isValid, cleaned = cleaned, difficulty = ''Medium'',
                     estimatedTime = ''Few minutes'', maxLength = 8\<rparr>
                  else if attempts < 1048576 then
                    \<lparr>valid = isValid, cleaned = cleaned, difficulty = ''Hard'',
                     estimatedTime = ''Few hours'', maxLength = 8\<rparr>
                  else
                    \<lparr>valid = isValid, cleaned = cleaned, difficulty = ''Very Hard'',
                     estimatedTime = ''Days or weeks'', maxLength = 8\<rparr>)
               else
                 \<lparr>valid = isValid, cleaned = cleaned, difficulty = ''Unknown'',
                  estimatedTime = ''Unknown'', maxLength = 8\<rparr>)))"

section \<open>Notions used to state the properties\<close>

text \<open>A value that fits a byte.\<close>

definition is_byte :: "int \<Rightarrow> bool" where
  "is_byte b = (0 \<le> b \<and> b < 256)"

text \<open>A \<open>0x\<close> string of whole bytes: what \<open>arrayify\<close> accepts.\<close>

definition even_hex :: "string \<Rightarrow> bool" where
  "even_hex v = (isHexString v \<and> even (length v))"

text \<open>The low \<open>n\<close> bytes of a big-endian value: its last \<open>n\<close> bytes.\<close>

definition last_bytes :: "nat \<Rightarrow> byte list \<Rightarrow> byte list" where
  "last_bytes n bs = drop (length bs - n) bs"

text \<open>The reference definition of the mixed-case checksum encoding (EIP-55), in the words of
  the standard: the address is written in lower-case hexadecimal, and digit number \<open>i\<close>, when
  it is a letter, is printed in upper case if digit number \<open>i\<close> of the Keccak-256 hash of
  that lower-case text is greater than 7.\<close>

definition eip55_encode :: "byte list \<Rightarrow> string" where
  "eip55_encode addr =
     (let hex_addr = hexlify addr;
          hashed_address = hexlify (keccak256 (map of_char hex_addr))
      in ''0x'' @ map2 (\<lambda>character h.
                          if character \<in> set ''abcdef'' \<and> 7 < hex_value h
                          then toUpperChar character else character)
                   hex_addr hashed_address)"

text \<open>The reference definition of a CREATE2 address, on bytes, in the words of the
  specification: the low 20 bytes of the Keccak-256 digest of
  \<open>0xff || deployer || salt || initCodeHash\<close>, rendered with the checksum encoding.\<close>

definition create2_reference :: "byte list \<Rightarrow> byte list \<Rightarrow> byte list \<Rightarrow> string" where
  "create2_reference deployer salt initCodeHash =
     eip55_encode (last_bytes 20 (keccak256 ([0xff] @ deployer @ salt @ initCodeHash)))"

text \<open>A TerminationSpec: 1 to 8 characters of \<open>0-9a-f\<close>.\<close>

definition valid_termination :: "string \<Rightarrow> bool" where
  "valid_termination T = (1 \<le> length T \<and> length T \<le> 8 \<and> list_all is_lower_hex T)"

text \<open>A request that passes the checks of \<open>/calculate-address\<close>: the three fields are
  there and the cleaned termination is a TerminationSpec.\<close>

definition valid_request :: "CalculateRequest \<Rightarrow> bool" where
  "valid_request req =
     (\<not> missing (q_deployerAddress req) \<and> \<not> missing (q_bytecodeHash req) \<and>
      \<not> missing (q_desiredTermination req) \<and>
      valid_termination (clean (the (q_desiredTermination req))))"

text \<open>The cap that \<open>/calculate-address\<close> passes to the search:
  \<open>Math.min(maxAttempts, 1000000)\<close>, with the default 100000.\<close>

definition effective_cap :: "CalculateRequest \<Rightarrow> number" where
  "effective_cap req =
     math_min (case q_maxAttempts req of None \<Rightarrow> Num 100000 | Some m \<Rightarrow> m) 1000000"

text \<open>The error of a search that reached its cap.\<close>

definition exhausted :: error where
  "exhausted = Error ''Maximum attempts reached without finding suitable salt''"

text \<open>The tiers in the words of the specification: thresholds \<open>2^8\<close>, \<open>2^12\<close>,
  \<open>2^16\<close> and \<open>2^20\<close> on the expected number of attempts.\<close>

definition spec_tier :: "nat \<Rightarrow> string \<times> string" where
  "spec_tier expectedAttempts =
     (if expectedAttempts < 2 ^ 8 then (''Very Easy'', ''Instant'')
      else if expectedAttempts < 2 ^ 12 then (''Easy'', ''Few seconds'')
      else if expectedAttempts < 2 ^ 16 then (''Medium'', ''Few minutes'')
      else if expectedAttempts < 2 ^ 20 then (''Hard'', ''Few hours'')
      else (''Very Hard'', ''Days or weeks''))"

text \<open>The position of the first occurrence of an element, the length of the list when
  there is none.\<close>

fun index_of :: "'a \<Rightarrow> 'a list \<Rightarrow> nat" where
  "index_of x [] = 0"
| "index_of x (y # ys) = (if x = y then 0 else Suc (index_of x ys))"

text \<open>The order of the tiers, from the easiest.\<close>

definition tier_rank :: "string \<Rightarrow> nat" where
  "tier_rank d = index_of d [''Very Easy'', ''Easy'', ''Medium'', ''Hard'', ''Very Hard'']"

text \<open>The tier that \<open>/validate-termination\<close> reports for a string.\<close>

definition reported_difficulty :: "string \<Rightarrow> string" where
  "reported_difficulty t =
     (case validate_termination (Some t) of Report rep \<Rightarrow> difficulty rep | _ \<Rightarrow> [])"

text \<open>A source of random bytes that returns the same buffer at every call.\<close>

definition constant_source :: "byte list \<Rightarrow> nat \<Rightarrow> byte list" where
  "constant_source b k = b"

text \<open>The known vector of the specification: the all-zero deployer, the all-zero salt, the
  Keccak-256 hash of the empty byte string, and the address that CREATE2 gives them
  (the example of EIP-1014 with empty init code).\<close>

definition vector_deployer :: string where
  "vector_deployer = ''0x0000000000000000000000000000000000000000''"

definition vector_salt :: string where
  "vector_salt = ''0x0000000000000000000000000000000000000000000000000000000000000000''"

definition vector_initCodeHash :: string where
  "vector_initCodeHash = ''0xc5d2460186f7233c927e7db2dcc703c0e500b653ca82273b7bfad8045d85a470''"

definition vector_address :: string where
  "vector_address = ''0xE33C0C7F7df4809055C3ebA6c09CFe4BaF1BD9e0''"

text \<open>A request for the deployer and init-code hash of the known vector.\<close>

definition vector_request :: "string \<Rightarrow> number option \<Rightarrow> CalculateRequest" where
  "vector_request termination cap =
     \<lparr>q_deployerAddress = Some vector_deployer, q_bytecodeHash = Some vector_initCodeHash,
      q_desiredTermination = Some termination, q_maxAttempts = cap\<rparr>"

section \<open>Properties\<close>

subsection \<open>Characters and hexadecimal strings\<close>

lemma is_lower_hex_is_hex: "is_lower_hex c \<Longrightarrow> is_hex c"
proof -
  have "\<forall>c \<in> set ''0123456789abcdef''. is_hex c"
    by (simp add: is_hex_def)
  then show "is_lower_hex c \<Longrightarrow> is_hex c"
    unfolding is_lower_hex_def by (rule bspec)
qed

lemma toLowerChar_lower_hex: "is_lower_hex c \<Longrightarrow> toLowerChar c = c"
proof -
  have "\<forall>c \<in> set ''0123456789abcdef''. toLowerChar c = c"
    by (simp add: toLowerChar_def)
  then show "is_lower_hex c \<Longrightarrow> toLowerChar c = c"
    unfolding is_lower_hex_def by (rule bspec)
qed

lemma toLowerChar_hex: "is_hex c \<Longrightarrow> is_lower_hex (toLowerChar c)"
proof -
  have "\<forall>c \<in> set ''0123456789abcdefABCDEF''. is_lower_hex (toLowerChar c)"
    by (simp add: toLowerChar_def is_lower_hex_def)
  then show "is_hex c \<Longrightarrow> is_lower_hex (toLowerChar c)"
    unfolding is_hex_def by (rule bspec)
qed

lemma toUpperChar_hex: "is_lower_hex c \<Longrightarrow> is_hex (toUpperChar c)"
proof -
  have "\<forall>c \<in> set ''0123456789abcdef''. is_hex (toUpperChar c)"
    by (simp add: toUpperChar_def is_hex_def)
  then show "is_lower_hex c \<Longrightarrow> is_hex (toUpperChar c)"
    unfolding is_lower_hex_def by (rule bspec)
qed

lemma toLowerChar_toUpperChar: "is_lower_hex c \<Longrightarrow> toLowerChar (toUpperChar c) = c"
proof -
  have "\<forall>c \<in> set ''0123456789abcdef''. toLowerChar (toUpperChar c) = c"
    by (simp add: toUpperChar_def toLowerChar_def)
  then show "is_lower_hex c \<Longrightarrow> toLowerChar (toUpperChar c) = c"
    unfolding is_lower_hex_def by (rule bspec)
qed

lemma toUpperChar_digit: "is_lower_hex c \<Longrightarrow> c \<notin> set ''abcdef'' \<Longrightarrow> toUpperChar c = c"
proof -
  have "\<forall>c \<in> set ''0123456789abcdef''. c \<notin> set ''abcdef'' \<longrightarrow> toUpperChar c = c"
    by (simp add: toUpperChar_def)
  then show "is_lower_hex c \<Longrightarrow> c \<notin> set ''abcdef'' \<Longrightarrow> toUpperChar c = c"
    unfolding is_lower_hex_def by blast
qed

lemma lower_hex_not_upper: "is_lower_hex c \<Longrightarrow> c \<notin> set ''ABCDEF''"
proof -
  have "\<forall>c \<in> set ''0123456789abcdef''. c \<notin> set ''ABCDEF''"
    by simp
  then show "is_lower_hex c \<Longrightarrow> c \<notin> set ''ABCDEF''"
    unfolding is_lower_hex_def by (rule bspec)
qed

lemma nibble_cases:
  fixes n :: int
  assumes "0 \<le> n" "n < 16"
  shows "n \<in> set [0, 1, 2, 3, 4, 5, 6, 7, 8, 9, 10, 11, 12, 13, 14, 15]"
  using assms by simp arith

lemma hex_digit_lower_hex: 
  assumes "0 \<le> n" "n < 16" shows "is_lower_hex (hex_digit n)"
proof -
  have "\<forall>n \<in> set [0, 1, 2, 3, 4, 5, 6, 7, 8, 9, 10, 11, 12, 13, 14, 15]. is_lower_hex (hex_digit n)"
    by (simp add: hex_digit_def is_lower_hex_def)
  then show ?thesis using nibble_cases [OF assms] by (rule bspec)
qed

lemma hex_value_hex_digit:
  assumes "0 \<le> n" "n < 16" shows "hex_value (hex_digit n) = n"
proof -
  have "\<forall>n \<in> set [0, 1, 2, 3, 4, 5, 6, 7, 8, 9, 10, 11, 12, 13, 14, 15]. hex_value (hex_digit n) = n"
    by (simp add: hex_digit_def hex_value_def)
  then show ?thesis using nibble_cases [OF assms] by (rule bspec)
qed

lemma high_nibble_range: "0 \<le> drop_bit 4 (b AND 0xF0) \<and> drop_bit 4 (b AND (0xF0::int)) < 16"
proof -
  have "b AND 0xF0 \<le> 0xF0" by (rule AND_upper2) simp
  moreover have "0 \<le> b AND 0xF0" by simp
  ultimately show ?thesis unfolding drop_bit_eq_div by (simp; presburger)
qed

lemma low_nibble_range: "0 \<le> b AND 0x0F \<and> b AND (0x0F::int) < 16"
proof -
  have "b AND 0x0F \<le> 0x0F" by (rule AND_upper2) simp
  then show ?thesis by simp
qed

lemma byte_range_iff: "(0 \<le> b \<and> b < 256) = (b \<in> set [0..255])"
  by auto

lemma byte_nibbles_all:
  "\<forall>b \<in> set [0..255]. 16 * drop_bit 4 (b AND 0xF0) + (b AND 0x0F) = b \<and> drop_bit 4 (b AND 0xF0) = drop_bit 4 b"
  by code_simp

lemma byte_nibbles:
  fixes b :: int
  assumes "0 \<le> b" "b < 256"
  shows "16 * drop_bit 4 (b AND 0xF0) + (b AND 0x0F) = b"
  using byte_nibbles_all assms byte_range_iff [of b] by blast

lemma high_nibble_byte:
  fixes b :: int
  assumes "0 \<le> b" "b < 256"
  shows "drop_bit 4 (b AND 0xF0) = drop_bit 4 b"
  using byte_nibbles_all assms byte_range_iff [of b] by blast

lemma length_hexlify: "length (hexlify bs) = 2 * length bs"
  by (induction bs) (simp_all add: hexlify_def hexlify_byte_def)

lemma hexlify_Cons: "hexlify (b # bs) = hex_digit (drop_bit 4 (b AND 0xF0)) # hex_digit (b AND 0x0F) # hexlify bs"
  by (simp add: hexlify_def hexlify_byte_def)

lemma hexlify_Nil: "hexlify [] = []"
  by (simp add: hexlify_def)

lemma hexlify_append: "hexlify (xs @ ys) = hexlify xs @ hexlify ys"
  by (simp add: hexlify_def)

lemma lower_hex_hexlify: "list_all is_lower_hex (hexlify bs)"
  by (induction bs)
     (simp_all add: hexlify_Nil hexlify_Cons hex_digit_lower_hex high_nibble_range low_nibble_range)

lemma hex_hexlify: "list_all is_hex (hexlify bs)"
  using lower_hex_hexlify [of bs] by (simp add: list_all_iff is_lower_hex_is_hex)

lemma drop_hexlify: "drop (2 * k) (hexlify bs) = hexlify (drop k bs)"
proof (induction bs arbitrary: k)
  case Nil
  show ?case by (simp add: hexlify_Nil)
next
  case (Cons b bs)
  show ?case
  proof (cases k)
    case 0
    then show ?thesis by simp
  next
    case (Suc j)
    then show ?thesis using Cons.IH [of j] by (simp add: hexlify_Cons)
  qed
qed

lemma hex_decode_hexlify: "list_all is_byte bs \<Longrightarrow> hex_decode (hexlify bs) = bs"
proof (induction bs)
  case Nil
  show ?case by (simp add: hexlify_Nil)
next
  case (Cons b bs)
  from Cons.prems have bs: "list_all is_byte bs" and "is_byte b"
    by simp_all
  then have b: "0 \<le> b" "b < 256"
    by (simp_all add: is_byte_def)
  have "16 * hex_value (hex_digit (drop_bit 4 (b AND 0xF0))) + hex_value (hex_digit (b AND 0x0F)) = b"
    using byte_nibbles [OF b]
    by (simp add: hex_value_hex_digit high_nibble_range low_nibble_range)
  then show ?case using Cons.IH [OF bs] by (simp add: hexlify_Cons)
qed

lemma toLowerCase_lower_hex: "list_all is_lower_hex s \<Longrightarrow> toLowerCase s = s"
  by (induction s) (simp_all add: toLowerCase_def toLowerChar_lower_hex)

lemma arrayify_hexlify:
  "list_all is_byte bs \<Longrightarrow> arrayify (''0x'' @ hexlify bs) = Inr bs"
  by (simp add: arrayify_def isHexString_def hex_hexlify length_hexlify hex_decode_hexlify)

lemma arrayify_ok:
  "isHexString v \<Longrightarrow> even (length v) \<Longrightarrow> arrayify v = Inr (hex_decode (drop 2 v))"
  by (auto simp: arrayify_def isHexString_def)

lemma arrayify_prefix: "arrayify ''0xff'' = Inr [255]"
  by (simp add: arrayify_def isHexString_def is_hex_def hex_value_def)

subsection \<open>The digest has 32 bytes\<close>

lemma length_bytes_of_lane: "length (bytes_of_lane n w) = n"
  by (induction n arbitrary: w) simp_all

lemma is_byte_mask: "is_byte (w AND 0xFF)"
proof -
  have "w AND 0xFF \<le> 0xFF" by (rule AND_upper2) simp
  then show ?thesis by (simp add: is_byte_def)
qed

lemma bytes_of_lane_range: "list_all is_byte (bytes_of_lane n w)"
  by (induction n arbitrary: w) (simp_all add: is_byte_mask)

lemma chunks_exact:
  "0 < n \<Longrightarrow> length xs = k * n \<Longrightarrow> length (chunks n xs) = k \<and> (\<forall>b \<in> set (chunks n xs). length b = n)"
proof (induction k arbitrary: xs)
  case 0
  then show ?case by simp
next
  case (Suc k)
  then obtain y ys where xs: "xs = y # ys" by (cases xs) auto
  have "length (drop n xs) = k * n" using Suc.prems by simp
  from Suc.IH [OF Suc.prems(1) this] show ?case
    using Suc.prems by (simp add: xs del: drop_Suc_Cons take_Suc_Cons)
qed

lemma foldl_invariant:
  assumes "P s" and "\<And>s x. P s \<Longrightarrow> x \<in> set xs \<Longrightarrow> P (f s x)"
  shows "P (foldl f s xs)"
  using assms by (induction xs arbitrary: s) simp_all

lemma length_concat_const:
  "(\<forall>r \<in> set rs. length (f r) = n) \<Longrightarrow> length (concat (map f rs)) = n * length rs"
  by (induction rs) simp_all

lemma length_theta: assumes "length a = 25" shows "length (theta a) = 25"
proof -
  let ?rows = "chunks 5 a"
  have rows: "length ?rows = 5 \<and> (\<forall>b \<in> set ?rows. length b = 5)"
    by (rule chunks_exact) (simp_all add: assms)
  then have ne: "?rows \<noteq> []" by auto
  let ?c = "foldl (map2 (XOR)) (hd ?rows) (tl ?rows)"
  have "length ?c = 5"
  proof (rule foldl_invariant [where P = "\<lambda>r. length r = 5"])
    show "length (hd ?rows) = 5" using rows ne by simp
  next
    fix s x :: "int list"
    assume "length s = 5" "x \<in> set (tl ?rows)"
    moreover then have "x \<in> set ?rows" using ne by (meson list.set_sel(2))
    ultimately show "length (map2 (XOR) s x) = 5" using rows by simp
  qed
  then have "length (map2 (XOR) (rotate 4 ?c) (map (rotl64 1) (rotate1 ?c))) = 5"
    by simp
  then have "\<forall>r \<in> set ?rows. length (map2 (XOR) (map2 (XOR) (rotate 4 ?c) (map (rotl64 1) (rotate1 ?c))) r) = 5"
    using rows by simp
  from length_concat_const [OF this] show ?thesis
    using rows by (simp add: theta_def Let_def)
qed

lemma length_rho: "length a = 25 \<Longrightarrow> length (rho a) = 25"
  by (simp add: rho_def ROT_def)

lemma length_pi: "length (pi a) = 25"
  by (simp add: pi_def PI_def)

lemma length_chi: assumes "length b = 25" shows "length (chi b) = 25"
proof -
  have rows: "length (chunks 5 b) = 5 \<and> (\<forall>r \<in> set (chunks 5 b). length r = 5)"
    by (rule chunks_exact) (simp_all add: assms)
  then have "\<forall>r \<in> set (chunks 5 b). length (chi_row r) = 5"
    by (simp add: chi_row_def)
  from length_concat_const [OF this] show ?thesis
    using rows by (simp add: chi_def)
qed

lemma length_iota: "length a = 25 \<Longrightarrow> length (iota rc a) = 25"
  by (simp add: iota_def)

lemma length_keccak_round: "length a = 25 \<Longrightarrow> length (keccak_round a rc) = 25"
  by (simp add: keccak_round_def length_iota length_chi length_pi)

lemma length_keccak_f: "length a = 25 \<Longrightarrow> length (keccak_f a) = 25"
  unfolding keccak_f_def
  by (rule foldl_invariant [where P = "\<lambda>s. length s = 25"]) (simp_all add: length_keccak_round)

lemma length_absorb:
  assumes "length s = 25" "length blk = 136" shows "length (absorb s blk) = 25"
proof -
  have "length (chunks 8 blk) = 17 \<and> (\<forall>b \<in> set (chunks 8 blk). length b = 8)"
    by (rule chunks_exact) (simp_all add: assms)
  then have "length (map2 (XOR) s (map lane_of_bytes (chunks 8 blk) @ replicate 8 0)) = 25"
    using assms by simp
  then show ?thesis unfolding absorb_def by (rule length_keccak_f)
qed

lemma length_pad: "\<exists>k. length (pad m) = k * 136"
proof -
  define q where "q = length m div 136"
  define r where "r = length m mod 136"
  have d: "length m = q * 136 + r" and lt: "r < 136"
    by (simp_all add: q_def r_def)
  have "length (pad m) = length m + (136 - r)"
    using lt by (auto simp: pad_def Let_def r_def)
  then have "length (pad m) = (q + 1) * 136"
    using d lt by simp
  then show ?thesis by blast
qed

lemma length_keccak256: "length (keccak256 m) = 32"
proof -
  obtain k where "length (pad m) = k * 136" using length_pad by blast
  then have blocks: "\<forall>b \<in> set (chunks 136 (pad m)). length b = 136"
    using chunks_exact [of 136 "pad m" k] by simp
  have "length (foldl absorb (replicate 25 0) (chunks 136 (pad m))) = 25"
    by (rule foldl_invariant [where P = "\<lambda>s. length s = 25"])
       (simp_all add: length_absorb blocks)
  then have "length (take 4 (foldl absorb (replicate 25 0) (chunks 136 (pad m)))) = 4"
    by simp
  moreover have "\<forall>w \<in> set (take 4 (foldl absorb (replicate 25 0) (chunks 136 (pad m)))). length (bytes_of_lane 8 w) = 8"
    by (simp add: length_bytes_of_lane)
  ultimately show ?thesis
    unfolding keccak256_def using length_concat_const by fastforce
qed

lemma keccak256_range: "list_all is_byte (keccak256 m)"
  unfolding keccak256_def list_all_iff
  using bytes_of_lane_range by (auto simp: list_all_iff)

subsection \<open>The derivation against the reference definition\<close>

lemma checksum_char:
  "is_lower_hex c \<Longrightarrow>
     (if c \<in> set ''abcdef'' \<and> 7 < v then toUpperChar c else c) = (if 8 \<le> (v::int) then toUpperChar c else c)"
  using toUpperChar_digit [of c] by auto

lemma checksum_chars_reference:
  "length a \<le> length hs \<Longrightarrow> list_all is_byte hs \<Longrightarrow>
     checksum_chars (hexlify a) hs =
       map2 (\<lambda>character h. if character \<in> set ''abcdef'' \<and> 7 < hex_value h
                            then toUpperChar character else character)
         (hexlify a) (hexlify hs)"
proof (induction a arbitrary: hs)
  case Nil
  show ?case by (simp add: hexlify_Nil)
next
  case (Cons b bs)
  then obtain h hs' where hs: "hs = h # hs'" by (cases hs) auto
  with Cons.prems have len: "length bs \<le> length hs'" and h: "is_byte h" and hs': "list_all is_byte hs'"
    by simp_all
  let ?f = "\<lambda>character h. if character \<in> set ''abcdef'' \<and> 7 < hex_value h
                            then toUpperChar character else character"
  let ?d1 = "hex_digit (drop_bit 4 (b AND 0xF0))" and ?d2 = "hex_digit (b AND 0x0F)"
  let ?e1 = "hex_digit (drop_bit 4 (h AND 0xF0))" and ?e2 = "hex_digit (h AND 0x0F)"
  have "hex_value ?e1 = drop_bit 4 (h AND 0xF0)"
    by (rule hex_value_hex_digit) (simp_all only: high_nibble_range)
  also have "drop_bit 4 (h AND 0xF0) = drop_bit 4 h"
    by (rule high_nibble_byte) (use h in \<open>simp_all add: is_byte_def\<close>)
  finally have h1: "hex_value ?e1 = drop_bit 4 h" .
  have h2: "hex_value ?e2 = h AND 0x0F"
    by (rule hex_value_hex_digit) (simp_all only: low_nibble_range)
  have c1: "is_lower_hex ?d1"
    by (rule hex_digit_lower_hex) (simp_all only: high_nibble_range)
  have c2: "is_lower_hex ?d2"
    by (rule hex_digit_lower_hex) (simp_all only: low_nibble_range)
  have f1: "?f ?d1 ?e1 = (if 8 \<le> drop_bit 4 h then toUpperChar ?d1 else ?d1)"
    by (simp only: h1 checksum_char [OF c1])
  have f2: "?f ?d2 ?e2 = (if 8 \<le> h AND 0x0F then toUpperChar ?d2 else ?d2)"
    by (simp only: h2 checksum_char [OF c2])
  have "checksum_chars (hexlify (b # bs)) (h # hs') =
          ?f ?d1 ?e1 # ?f ?d2 ?e2 # checksum_chars (hexlify bs) hs'"
    by (simp only: hexlify_Cons checksum_chars.simps f1 f2)
  also have "\<dots> = ?f ?d1 ?e1 # ?f ?d2 ?e2 # map2 ?f (hexlify bs) (hexlify hs')"
    by (simp only: Cons.IH [OF len hs'])
  also have "\<dots> = map2 ?f (hexlify (b # bs)) (hexlify (h # hs'))"
    by (simp only: hexlify_Cons zip_Cons_Cons list.map prod.case)
  finally show ?case
    by (simp only: hs)
qed

lemma arrayify_error: "arrayify v = Inl e \<Longrightarrow> \<exists>m. e = ArgumentError m"
  by (auto simp: arrayify_def Let_def split: if_splits)

lemma concat_items_error: "concat_items vs = Inl e \<Longrightarrow> \<exists>m. e = ArgumentError m"
  by (induction vs arbitrary: e) (auto split: sum.splits dest: arrayify_error)

lemma getChecksumAddress_error: "getChecksumAddress a = Inl e \<Longrightarrow> \<exists>m. e = ArgumentError m"
  by (auto simp: getChecksumAddress_def Let_def split: if_splits sum.splits dest: arrayify_error)

lemma getAddress_0x_error: "getAddress_0x a = Inl e \<Longrightarrow> \<exists>m. e = ArgumentError m"
  by (auto simp: getAddress_0x_def Let_def split: if_splits sum.splits dest: getChecksumAddress_error)

lemma calculate_error: "calculateCREATE2Address d s h = Inl e \<Longrightarrow> \<exists>m. e = ArgumentError m"
  by (auto simp: calculateCREATE2Address_def Let_def simp del: concat_items.simps split: sum.splits
           dest: concat_items_error getAddress_0x_error)

lemma isHexString_length: assumes "isHexString v" shows "2 \<le> length v"
proof -
  have "length (take 2 v) = 2" using assms by (simp add: isHexString_def)
  then show ?thesis by simp
qed

lemma arrayify_even_hex: "even_hex v \<Longrightarrow> arrayify v = Inr (hex_decode (drop 2 v))"
  using isHexString_length [of v] by (auto simp: arrayify_def even_hex_def Let_def)

lemma arrayify_not_even_hex: "\<not> even_hex v \<Longrightarrow> \<exists>e. arrayify v = Inl e"
  using isHexString_length [of v] by (auto simp: arrayify_def even_hex_def Let_def)

lemma mixed_case_lower_hex:
  assumes "list_all is_lower_hex s" shows "\<not> mixed_case (''0x'' @ s)"
proof -
  have "c \<notin> set ''ABCDEF''" if "c \<in> set (''0x'' @ s)" for c
  proof -
    from that consider "c = CHR ''0''" | "c = CHR ''x''" | "c \<in> set s" by auto
    then show ?thesis
    proof cases
      case 3
      then have "is_lower_hex c" using assms by (simp add: list_all_iff)
      then show ?thesis by (rule lower_hex_not_upper)
    qed simp_all
  qed
  then show ?thesis unfolding mixed_case_def by blast
qed

lemma getAddress_0x_hexlify:
  assumes "length a = 20"
  shows "getAddress_0x (hexlify a) = Inr (eip55_encode a)"
proof -
  let ?hashed = "keccak256 (map of_char (hexlify a))"
  have lower: "toLowerCase (CHR ''0'' # CHR ''x'' # hexlify a) = CHR ''0'' # CHR ''x'' # hexlify a"
    using toLowerCase_lower_hex [OF lower_hex_hexlify, of a]
    by (simp add: toLowerCase_def toLowerChar_def)
  have "isHexStringLen (''0x'' @ hexlify a) 20"
    by (simp add: isHexStringLen_def isHexString_def hex_hexlify length_hexlify assms)
  moreover have "arrayify (ethers_keccak256 (map of_char (hexlify a))) = Inr ?hashed"
    unfolding ethers_keccak256_def by (rule arrayify_hexlify) (rule keccak256_range)
  ultimately have "getChecksumAddress (''0x'' @ hexlify a) = Inr (''0x'' @ checksum_chars (hexlify a) ?hashed)"
    by (simp add: getChecksumAddress_def lower Let_def)
  moreover have "checksum_chars (hexlify a) ?hashed =
       map2 (\<lambda>character h. if character \<in> set ''abcdef'' \<and> 7 < hex_value h
                            then toUpperChar character else character)
         (hexlify a) (hexlify ?hashed)"
    by (rule checksum_chars_reference) (simp_all add: assms length_keccak256 keccak256_range)
  ultimately show ?thesis
    using mixed_case_lower_hex [OF lower_hex_hexlify, of a]
    by (simp add: getAddress_0x_def eip55_encode_def Let_def length_hexlify hex_hexlify assms)
qed

lemma slice_last_digest:
  "slice_last 40 (ethers_keccak256 m) = hexlify (last_bytes 20 (keccak256 m))"
proof -
  have "slice_last 40 (ethers_keccak256 m) = drop (2 * 12) (hexlify (keccak256 m))"
    by (simp add: slice_last_def ethers_keccak256_def length_hexlify length_keccak256)
  then show ?thesis
    by (simp only: drop_hexlify) (simp add: last_bytes_def length_keccak256)
qed

lemma calculate_even_hex:
  assumes "even_hex d" "even_hex s" "even_hex h"
  shows "calculateCREATE2Address d s h =
           Inr (create2_reference (hex_decode (drop 2 d)) (hex_decode (drop 2 s)) (hex_decode (drop 2 h)))"
proof -
  have "concat_items [''0xff'', d, s, h] =
          Inr ([0xff] @ hex_decode (drop 2 d) @ hex_decode (drop 2 s) @ hex_decode (drop 2 h))"
    using assms by (simp add: arrayify_prefix arrayify_even_hex)
  moreover have "length (last_bytes 20 (keccak256 m)) = 20" for m
    by (simp add: last_bytes_def length_keccak256)
  ultimately show ?thesis
    by (simp add: calculateCREATE2Address_def create2_reference_def slice_last_digest
          getAddress_0x_hexlify del: append.simps)
qed

lemma calculate_not_even_hex:
  assumes "\<not> (even_hex d \<and> even_hex s \<and> even_hex h)"
  shows "\<exists>m. calculateCREATE2Address d s h = Inl (ArgumentError m)"
proof -
  have "\<exists>e. concat_items [''0xff'', d, s, h] = Inl e"
    using assms arrayify_not_even_hex [of d] arrayify_not_even_hex [of s] arrayify_not_even_hex [of h]
    by (auto simp: arrayify_prefix split: sum.splits)
  then obtain e where e: "concat_items [''0xff'', d, s, h] = Inl e" by blast
  then have "calculateCREATE2Address d s h = Inl e"
    by (simp add: calculateCREATE2Address_def)
  then show ?thesis using calculate_error by blast
qed

subsection \<open>The search loop\<close>

lemma counter_less_Num: "counter_less a (Num q) = (a < nat \<lceil>q\<rceil>)"
proof -
  have "(of_nat a < q) = (int a < \<lceil>q\<rceil>)"
    by (simp add: less_ceiling_iff)
  then show ?thesis by (simp add: zless_nat_eq_int_zless)
qed

lemma loop_stop:
  "\<not> counter_less attempts maxAttempts \<Longrightarrow>
     findSalt_loop rnd d h t maxAttempts attempts drawn =
       Some (Inl (Error ''Maximum attempts reached without finding suitable salt''), drawn)"
  by (simp add: findSalt_loop.simps [of rnd d h t maxAttempts attempts drawn])

lemma loop_throw:
  "counter_less attempts maxAttempts \<Longrightarrow>
   calculateCREATE2Address d (''0x'' @ hexlify (rnd drawn)) h = Inl e \<Longrightarrow>
     findSalt_loop rnd d h t maxAttempts attempts drawn = Some (Inl e, Suc drawn)"
  by (simp add: findSalt_loop.simps [of rnd d h t maxAttempts attempts drawn])

lemma loop_match:
  "counter_less attempts maxAttempts \<Longrightarrow>
   calculateCREATE2Address d (''0x'' @ hexlify (rnd drawn)) h = Inr a \<Longrightarrow>
   endsWith (toLowerCase a) t \<Longrightarrow>
     findSalt_loop rnd d h t maxAttempts attempts drawn =
       Some (Inr \<lparr>r_salt = ''0x'' @ hexlify (rnd drawn), r_address = a, r_attempts = attempts + 1\<rparr>,
             Suc drawn)"
  by (simp add: findSalt_loop.simps [of rnd d h t maxAttempts attempts drawn])

lemma loop_next:
  "counter_less attempts maxAttempts \<Longrightarrow>
   calculateCREATE2Address d (''0x'' @ hexlify (rnd drawn)) h = Inr a \<Longrightarrow>
   \<not> endsWith (toLowerCase a) t \<Longrightarrow>
     findSalt_loop rnd d h t maxAttempts attempts drawn =
       findSalt_loop rnd d h t maxAttempts (attempts + 1) (Suc drawn)"
  by (simp add: findSalt_loop.simps [of rnd d h t maxAttempts attempts drawn])

text \<open>Induction over the iterations of a loop that returns.\<close>

lemma loop_result_induct [consumes 1, case_names stop throw match step]:
  assumes ret: "findSalt_loop rnd d h t m attempts drawn = Some y"
    and stop: "\<And>a k. \<not> counter_less a m \<Longrightarrow>
        P a k (Inl (Error ''Maximum attempts reached without finding suitable salt''), k)"
    and throw: "\<And>a k e. counter_less a m \<Longrightarrow>
        calculateCREATE2Address d (''0x'' @ hexlify (rnd k)) h = Inl e \<Longrightarrow> P a k (Inl e, Suc k)"
    and match: "\<And>a k addr. counter_less a m \<Longrightarrow>
        calculateCREATE2Address d (''0x'' @ hexlify (rnd k)) h = Inr addr \<Longrightarrow>
        endsWith (toLowerCase addr) t \<Longrightarrow>
        P a k (Inr \<lparr>r_salt = ''0x'' @ hexlify (rnd k), r_address = addr, r_attempts = a + 1\<rparr>, Suc k)"
    and step: "\<And>a k addr y. counter_less a m \<Longrightarrow>
        calculateCREATE2Address d (''0x'' @ hexlify (rnd k)) h = Inr addr \<Longrightarrow>
        \<not> endsWith (toLowerCase addr) t \<Longrightarrow> P (a + 1) (Suc k) y \<Longrightarrow> P a k y"
  shows "P attempts drawn y"
proof -
  have "rnd' = rnd \<and> d' = d \<and> h' = h \<and> t' = t \<and> m' = m \<longrightarrow> P a k y"
    if "findSalt_loop rnd' d' h' t' m' a k = Some y" for rnd' d' h' t' m' a k y
  proof (rule findSalt_loop.raw_induct
           [where P = "\<lambda>rnd' d' h' t' m' a k y.
                          rnd' = rnd \<and> d' = d \<and> h' = h \<and> t' = t \<and> m' = m \<longrightarrow> P a k y",
            OF _ that])
    fix f rnd' d' h' t' m' a k y
    assume IH: "\<And>d' h' t' m' a k b y. f d' h' t' m' a k b = Some y \<Longrightarrow>
                  d' = rnd \<and> h' = d \<and> t' = h \<and> m' = t \<and> a = m \<longrightarrow> P k b y"
      and body: "(if counter_less a m' then
        (let randomBytes = rnd' k; salt = ''0x'' @ hexlify randomBytes
         in case calculateCREATE2Address d' salt h' of
              Inl e \<Rightarrow> Some (Inl e, Suc k)
            | Inr address \<Rightarrow>
                if endsWith (toLowerCase address) t'
                then Some (Inr \<lparr>r_salt = salt, r_address = address, r_attempts = a + 1\<rparr>, Suc k)
                else f rnd' d' h' t' m' (a + 1) (Suc k))
         else Some (Inl (Error ''Maximum attempts reached without finding suitable salt''), k)) = Some y"
    show "rnd' = rnd \<and> d' = d \<and> h' = h \<and> t' = t \<and> m' = m \<longrightarrow> P a k y"
    proof
      assume eq: "rnd' = rnd \<and> d' = d \<and> h' = h \<and> t' = t \<and> m' = m"
      show "P a k y"
      proof (cases "counter_less a m")
        case False
        with body eq have y: "y = (Inl (Error ''Maximum attempts reached without finding suitable salt''), k)"
          by simp
        show ?thesis unfolding y using False by (rule stop)
      next
        case lt: True
        show ?thesis
        proof (cases "calculateCREATE2Address d (''0x'' @ hexlify (rnd k)) h")
          case (Inl e)
          with body eq lt have y: "y = (Inl e, Suc k)" by simp
          show ?thesis unfolding y using lt Inl by (rule throw)
        next
          case (Inr addr)
          show ?thesis
          proof (cases "endsWith (toLowerCase addr) t")
            case True
            with body eq lt Inr have y: "y = (Inr \<lparr>r_salt = ''0x'' @ hexlify (rnd k), r_address = addr,
                                              r_attempts = a + 1\<rparr>, Suc k)"
              by simp
            show ?thesis unfolding y using lt Inr True by (rule match)
          next
            case False
            with body eq lt Inr have "f rnd d h t m (a + 1) (Suc k) = Some y" by simp
            from IH [OF this] have "P (a + 1) (Suc k) y" by simp
            with lt Inr False show ?thesis by (rule step)
          qed
        qed
      qed
    qed
  qed
  from this [OF ret] show ?thesis by simp
qed

text \<open>Induction over the iterations of a loop with a bounded counter.\<close>

lemma loop_induct [consumes 1, case_names stop throw match step]:
  assumes bound: "\<forall>a. counter_less a m \<longrightarrow> a < L"
    and stop: "\<And>attempts drawn. \<not> counter_less attempts m \<Longrightarrow> P attempts drawn"
    and throw: "\<And>attempts drawn e. counter_less attempts m \<Longrightarrow>
        calculateCREATE2Address d (''0x'' @ hexlify (rnd drawn)) h = Inl e \<Longrightarrow> P attempts drawn"
    and match: "\<And>attempts drawn a. counter_less attempts m \<Longrightarrow>
        calculateCREATE2Address d (''0x'' @ hexlify (rnd drawn)) h = Inr a \<Longrightarrow>
        endsWith (toLowerCase a) t \<Longrightarrow> P attempts drawn"
    and step: "\<And>attempts drawn a. counter_less attempts m \<Longrightarrow>
        calculateCREATE2Address d (''0x'' @ hexlify (rnd drawn)) h = Inr a \<Longrightarrow>
        \<not> endsWith (toLowerCase a) t \<Longrightarrow> P (attempts + 1) (Suc drawn) \<Longrightarrow> P attempts drawn"
  shows "P attempts drawn"
proof (induction "L - attempts" arbitrary: attempts drawn)
  case (0 attempts drawn)
  then have "\<not> counter_less attempts m" using bound by auto
  then show ?case by (rule stop)
next
  case (Suc n attempts drawn)
  show ?case
  proof (cases "counter_less attempts m")
    case False
    then show ?thesis by (rule stop)
  next
    case lt: True
    show ?thesis
    proof (cases "calculateCREATE2Address d (''0x'' @ hexlify (rnd drawn)) h")
      case (Inl e)
      with lt show ?thesis by (rule throw)
    next
      case (Inr a)
      show ?thesis
      proof (cases "endsWith (toLowerCase a) t")
        case True
        with lt Inr show ?thesis by (rule match)
      next
        case False
        have "n = L - (attempts + 1)"
          using Suc.hyps(2) by linarith
        then have "P (attempts + 1) (Suc drawn)"
          by (rule Suc.hyps(1))
        with lt Inr False show ?thesis by (rule step)
      qed
    qed
  qed
qed

lemma counter_bound:
  assumes "m \<noteq> PlusInfinity"
  shows "\<exists>L. \<forall>a. counter_less a m = (a < L)"
proof (cases m)
  case (Num q)
  have "\<forall>a. counter_less a (Num q) = (a < nat \<lceil>q\<rceil>)"
    by (simp only: counter_less_Num) simp
  with Num show ?thesis by blast
next
  case NaN
  then have "\<forall>a. counter_less a m = (a < 0)" by simp
  then show ?thesis by blast
next
  case PlusInfinity
  with assms show ?thesis by simp
next
  case MinusInfinity
  then have "\<forall>a. counter_less a m = (a < 0)" by simp
  then show ?thesis by blast
qed

text \<open>A loop whose cap is not \<open>Infinity\<close> returns.\<close>

lemma loop_returns:
  assumes "m \<noteq> PlusInfinity"
  shows "\<exists>y. findSalt_loop rnd d h t m a k = Some y"
proof -
  from counter_bound [OF assms] obtain L where L: "\<forall>a. counter_less a m = (a < L)" by blast
  then have b: "\<forall>a. counter_less a m \<longrightarrow> a < L" by simp
  then show ?thesis
  proof (induction a k rule: loop_induct [where m = m and d = d and h = h and rnd = rnd and t = t])
    case (stop a k)
    then show ?case by (simp add: loop_stop)
  next
    case (throw a k e)
    then show ?case by (simp add: loop_throw)
  next
    case (match a k addr)
    then show ?case by (simp add: loop_match)
  next
    case (step a k addr)
    then show ?case by (simp add: loop_next [where rnd = rnd and drawn = k, OF step(1-3)])
  qed
qed

text \<open>What a returned loop has done: every salt but the last was derived and did not
  match, and the counter was below the cap at each of them.\<close>

lemma loop_trace:
  assumes "findSalt_loop rnd d h t m a k = Some (out, n)"
  shows "k \<le> n \<and> (\<forall>j. j < n - k \<longrightarrow> counter_less (a + j) m) \<and>
         (\<forall>i. k \<le> i \<and> i < n - 1 \<longrightarrow>
            (\<exists>addr. calculateCREATE2Address d (''0x'' @ hexlify (rnd i)) h = Inr addr
                   \<and> \<not> endsWith (toLowerCase addr) t))"
proof -
  define y where "y = (out, n)"
  with assms have "findSalt_loop rnd d h t m a k = Some y" by simp
  then have "k \<le> snd y \<and> (\<forall>j. j < snd y - k \<longrightarrow> counter_less (a + j) m) \<and>
         (\<forall>i. k \<le> i \<and> i < snd y - 1 \<longrightarrow>
            (\<exists>addr. calculateCREATE2Address d (''0x'' @ hexlify (rnd i)) h = Inr addr
                   \<and> \<not> endsWith (toLowerCase addr) t))"
  proof (induction rule: loop_result_induct)
    case (stop a k)
    then show ?case by auto
  next
    case (throw a k e)
    then show ?case by auto
  next
    case (match a k addr)
    then show ?case by auto
  next
    case (step a k addr y)
    have "counter_less (a + j) m" if "j < snd y - k" for j
    proof (cases j)
      case 0
      with step(1) show ?thesis by simp
    next
      case (Suc j')
      with that have "j' < snd y - Suc k" by simp
      with step(4) have "counter_less (a + 1 + j') m" by blast
      with Suc show ?thesis by simp
    qed
    moreover have "\<exists>addr. calculateCREATE2Address d (''0x'' @ hexlify (rnd i)) h = Inr addr
                   \<and> \<not> endsWith (toLowerCase addr) t" if "k \<le> i \<and> i < snd y - 1" for i
    proof (cases "i = k")
      case True
      with step(2,3) show ?thesis by blast
    next
      case False
      with that have "Suc k \<le> i \<and> i < snd y - 1" by simp
      with step(4) show ?thesis by blast
    qed
    moreover from step(4) have "k \<le> snd y" by simp
    ultimately show ?case by blast
  qed
  then show ?thesis unfolding y_def snd_conv by blast
qed

lemma loop_success:
  assumes "findSalt_loop rnd d h t m a k = Some (Inr r, n)"
  shows "endsWith (toLowerCase (r_address r)) t \<and>
     calculateCREATE2Address d (r_salt r) h = Inr (r_address r) \<and>
     r_salt r = ''0x'' @ hexlify (rnd (n - 1)) \<and>
     a < r_attempts r \<and> counter_less (r_attempts r - 1) m \<and> n = k + (r_attempts r - a)"
proof -
  define y where "y = (Inr r :: error + MiningResult, n)"
  with assms have "findSalt_loop rnd d h t m a k = Some y" by simp
  then have "\<forall>r. fst y = Inr r \<longrightarrow>
     endsWith (toLowerCase (r_address r)) t \<and>
     calculateCREATE2Address d (r_salt r) h = Inr (r_address r) \<and>
     r_salt r = ''0x'' @ hexlify (rnd (snd y - 1)) \<and>
     a < r_attempts r \<and> counter_less (r_attempts r - 1) m \<and> snd y = k + (r_attempts r - a)"
  proof (induction rule: loop_result_induct)
    case (stop a k)
    then show ?case by simp
  next
    case (throw a k e)
    then show ?case by simp
  next
    case (match a k addr)
    then show ?case by simp
  next
    case (step a k addr y)
    show ?case
    proof (intro allI impI)
      fix r assume "fst y = Inr r"
      with step(4) have IH: "endsWith (toLowerCase (r_address r)) t"
        "calculateCREATE2Address d (r_salt r) h = Inr (r_address r)"
        "r_salt r = ''0x'' @ hexlify (rnd (snd y - 1))"
        "a + 1 < r_attempts r" "counter_less (r_attempts r - 1) m"
        "snd y = Suc k + (r_attempts r - (a + 1))"
        by blast+
      from IH(4,6) have "a < r_attempts r" "snd y = k + (r_attempts r - a)" by linarith+
      with IH(1,2,3,5)
      show "endsWith (toLowerCase (r_address r)) t \<and>
        calculateCREATE2Address d (r_salt r) h = Inr (r_address r) \<and>
        r_salt r = ''0x'' @ hexlify (rnd (snd y - 1)) \<and>
        a < r_attempts r \<and> counter_less (r_attempts r - 1) m \<and> snd y = k + (r_attempts r - a)"
        by blast
    qed
  qed
  then show ?thesis unfolding y_def fst_conv snd_conv by blast
qed

lemma loop_exhausted:
  assumes "findSalt_loop rnd d h t m a k = Some (Inl (Error msg), n)"
  shows "msg = ''Maximum attempts reached without finding suitable salt'' \<and>
         \<not> counter_less (a + (n - k)) m \<and>
         (\<forall>i. k \<le> i \<and> i < n \<longrightarrow>
            (\<exists>addr. calculateCREATE2Address d (''0x'' @ hexlify (rnd i)) h = Inr addr
                   \<and> \<not> endsWith (toLowerCase addr) t))"
proof -
  define y where "y = (Inl (Error msg) :: error + MiningResult, n)"
  with assms have "findSalt_loop rnd d h t m a k = Some y" by simp
  then have "\<forall>msg. fst y = Inl (Error msg) \<longrightarrow>
         msg = ''Maximum attempts reached without finding suitable salt'' \<and> k \<le> snd y \<and>
         \<not> counter_less (a + (snd y - k)) m \<and>
         (\<forall>i. k \<le> i \<and> i < snd y \<longrightarrow>
            (\<exists>addr. calculateCREATE2Address d (''0x'' @ hexlify (rnd i)) h = Inr addr
                   \<and> \<not> endsWith (toLowerCase addr) t))"
  proof (induction rule: loop_result_induct)
    case (stop a k)
    then show ?case by auto
  next
    case (throw a k e)
    from calculate_error [OF throw(2)] show ?case by auto
  next
    case (match a k addr)
    then show ?case by simp
  next
    case (step a k addr y)
    show ?case
    proof (intro allI impI)
      fix msg assume "fst y = Inl (Error msg)"
      with step(4) have IH: "msg = ''Maximum attempts reached without finding suitable salt''"
        "Suc k \<le> snd y" "\<not> counter_less (a + 1 + (snd y - Suc k)) m"
        "\<forall>i. Suc k \<le> i \<and> i < snd y \<longrightarrow>
            (\<exists>addr. calculateCREATE2Address d (''0x'' @ hexlify (rnd i)) h = Inr addr
                   \<and> \<not> endsWith (toLowerCase addr) t)"
        by blast+
      from IH(2) have e: "a + 1 + (snd y - Suc k) = a + (snd y - k)" by simp
      have "\<exists>addr. calculateCREATE2Address d (''0x'' @ hexlify (rnd i)) h = Inr addr
                   \<and> \<not> endsWith (toLowerCase addr) t" if "k \<le> i \<and> i < snd y" for i
      proof (cases "i = k")
        case True
        with step(2,3) show ?thesis by blast
      next
        case False
        with that have "Suc k \<le> i \<and> i < snd y" by simp
        with IH(4) show ?thesis by blast
      qed
      with IH(1,2,3) e
      show "msg = ''Maximum attempts reached without finding suitable salt'' \<and> k \<le> snd y \<and>
         \<not> counter_less (a + (snd y - k)) m \<and>
         (\<forall>i. k \<le> i \<and> i < snd y \<longrightarrow>
            (\<exists>addr. calculateCREATE2Address d (''0x'' @ hexlify (rnd i)) h = Inr addr
                   \<and> \<not> endsWith (toLowerCase addr) t))"
        by simp
    qed
  qed
  then show ?thesis unfolding y_def fst_conv snd_conv by blast
qed

lemma loop_thrown:
  assumes "findSalt_loop rnd d h t m a k = Some (Inl (ArgumentError reason), n)"
  shows "k < n \<and> calculateCREATE2Address d (''0x'' @ hexlify (rnd (n - 1))) h
                    = Inl (ArgumentError reason)"
proof -
  define y where "y = (Inl (ArgumentError reason) :: error + MiningResult, n)"
  with assms have "findSalt_loop rnd d h t m a k = Some y" by simp
  then have "\<forall>reason. fst y = Inl (ArgumentError reason) \<longrightarrow>
         k < snd y \<and> calculateCREATE2Address d (''0x'' @ hexlify (rnd (snd y - 1))) h
                    = Inl (ArgumentError reason)"
  proof (induction rule: loop_result_induct)
    case (stop a k)
    then show ?case by simp
  next
    case (throw a k e)
    then show ?case by simp
  next
    case (match a k addr)
    then show ?case by simp
  next
    case (step a k addr y)
    show ?case
    proof (intro allI impI)
      fix reason assume "fst y = Inl (ArgumentError reason)"
      with step(4) have "Suc k < snd y"
        "calculateCREATE2Address d (''0x'' @ hexlify (rnd (snd y - 1))) h = Inl (ArgumentError reason)"
        by blast+
      then show "k < snd y \<and> calculateCREATE2Address d (''0x'' @ hexlify (rnd (snd y - 1))) h
                    = Inl (ArgumentError reason)"
        by simp
    qed
  qed
  then show ?thesis unfolding y_def fst_conv snd_conv by blast
qed

lemma loop_no_match:
  assumes L: "\<And>a. counter_less a m = (a < L)"
  shows "(\<forall>i. k \<le> i \<and> i < k + (L - a) \<longrightarrow>
      (\<exists>addr. calculateCREATE2Address d (''0x'' @ hexlify (rnd i)) h = Inr addr
             \<and> \<not> endsWith (toLowerCase addr) t)) \<Longrightarrow>
   findSalt_loop rnd d h t m a k =
     Some (Inl (Error ''Maximum attempts reached without finding suitable salt''), k + (L - a))"
proof -
  have b: "\<forall>a. counter_less a m \<longrightarrow> a < L" by (simp add: L)
  then show "(\<forall>i. k \<le> i \<and> i < k + (L - a) \<longrightarrow>
      (\<exists>addr. calculateCREATE2Address d (''0x'' @ hexlify (rnd i)) h = Inr addr
             \<and> \<not> endsWith (toLowerCase addr) t)) \<Longrightarrow>
   findSalt_loop rnd d h t m a k =
     Some (Inl (Error ''Maximum attempts reached without finding suitable salt''), k + (L - a))"
  proof (induction a k rule: loop_induct [where m = m and d = d and h = h and rnd = rnd and t = t])
    case (stop a k)
    then show ?case by (simp add: loop_stop L)
  next
    case (throw a k e)
    from throw(1) have "k \<le> k \<and> k < k + (L - a)" by (simp add: L)
    with throw(3) have "\<exists>addr. calculateCREATE2Address d (''0x'' @ hexlify (rnd k)) h = Inr addr" by blast
    with throw(2) show ?case by simp
  next
    case (match a k addr)
    from match(1) have "k \<le> k \<and> k < k + (L - a)" by (simp add: L)
    with match(4) have "\<exists>addr. calculateCREATE2Address d (''0x'' @ hexlify (rnd k)) h = Inr addr
               \<and> \<not> endsWith (toLowerCase addr) t" by blast
    with match(2,3) show ?case by simp
  next
    case (step a k addr)
    have eq: "Suc k + (L - (a + 1)) = k + (L - a)"
      using step(1) by (simp add: L)
    have "\<forall>i. Suc k \<le> i \<and> i < Suc k + (L - (a + 1)) \<longrightarrow>
        (\<exists>addr. calculateCREATE2Address d (''0x'' @ hexlify (rnd i)) h = Inr addr
               \<and> \<not> endsWith (toLowerCase addr) t)"
      using step(5) unfolding eq by auto
    from step(4) [OF this] show ?case
      by (simp only: loop_next [where rnd = rnd and drawn = k, OF step(1-3)] eq)
  qed
qed

text \<open>The number of salts drawn by a loop with a finite cap.\<close>

lemma loop_drawn:
  assumes "findSalt_loop rnd d h t m a k = Some (out, n)" and L: "\<And>a. counter_less a m = (a < L)"
  shows "k \<le> n \<and> n \<le> k + (L - a)"
proof -
  from loop_trace [OF assms(1)]
  have kn: "k \<le> n" and c: "\<forall>j. j < n - k \<longrightarrow> counter_less (a + j) m" by blast+
  have "n - k \<le> L - a"
  proof (cases "n - k")
    case 0
    then show ?thesis by simp
  next
    case (Suc j)
    with c have "counter_less (a + j) m" by simp
    then have "a + j < L" by (simp add: L)
    with Suc show ?thesis by simp
  qed
  with kn show ?thesis by simp
qed

lemma loop_exhausted_drawn:
  assumes "findSalt_loop rnd d h t m a k = Some (Inl (Error msg), n)"
    and L: "\<And>a. counter_less a m = (a < L)"
  shows "n = k + (L - a)"
proof -
  from loop_drawn [OF assms(1), of L] L have b: "k \<le> n" "n \<le> k + (L - a)" by simp_all
  from loop_exhausted [OF assms(1)] have "\<not> counter_less (a + (n - k)) m" by simp
  then have "L \<le> a + (n - k)" by (simp add: L)
  with b show ?thesis by simp
qed

subsection \<open>The handlers\<close>

lemma lower_hex_clean: "list_all is_lower_hex (clean s)"
  by (simp add: clean_def list_all_iff)

lemma toLowerCase_clean: "toLowerCase (clean s) = clean s"
  by (rule toLowerCase_lower_hex) (rule lower_hex_clean)

lemma endsWith_suffix: "endsWith s t = suffix t s"
proof
  assume "endsWith s t"
  then have "s = take (length s - length t) s @ t"
    by (metis append_take_drop_id endsWith_def)
  then show "suffix t s" by (rule suffixI)
next
  assume "suffix t s"
  then obtain p where "s = p @ t" by (auto simp: suffix_def)
  then show "endsWith s t" by (simp add: endsWith_def)
qed

lemma suffix_drop_short:
  assumes "suffix t s" "length t + k \<le> length s" shows "suffix t (drop k s)"
proof -
  from assms(1) obtain p where s: "s = p @ t" by (auto simp: suffix_def)
  with assms(2) have "k \<le> length p" by simp
  then have "drop k s = drop k p @ t" by (simp add: s)
  then show ?thesis by (rule suffixI)
qed

lemma length_eip55_encode: "length a = 20 \<Longrightarrow> length (eip55_encode a) = 42"
  by (simp add: eip55_encode_def Let_def length_hexlify length_keccak256)

lemma take2_eip55_encode: "take 2 (eip55_encode a) = ''0x''"
  by (simp add: eip55_encode_def Let_def)

lemma calculate_address_shape:
  assumes "calculateCREATE2Address d s h = Inr a"
  shows "length a = 42 \<and> take 2 a = ''0x''"
proof -
  have eh: "even_hex d \<and> even_hex s \<and> even_hex h"
    using assms calculate_not_even_hex [of d s h] by auto
  define m where "m = [0xff] @ hex_decode (drop 2 d) @ hex_decode (drop 2 s) @ hex_decode (drop 2 h)"
  have "calculateCREATE2Address d s h = Inr (eip55_encode (last_bytes 20 (keccak256 m)))"
    using eh calculate_even_hex [of d s h] by (simp add: create2_reference_def m_def)
  with assms have a: "a = eip55_encode (last_bytes 20 (keccak256 m))"
    by simp
  have "length (last_bytes 20 (keccak256 m)) = 20"
    by (simp add: last_bytes_def length_keccak256)
  then show ?thesis
    unfolding a by (simp only: length_eip55_encode take2_eip55_encode)
qed

lemma toLowerCase_length: "length (toLowerCase s) = length s"
  by (simp add: toLowerCase_def)

lemma toLowerCase_take2: "take 2 a = ''0x'' \<Longrightarrow> take 2 (toLowerCase a) = ''0x''"
proof -
  assume a: "take 2 a = ''0x''"
  have "take 2 (toLowerCase a) = toLowerCase (take 2 a)"
    by (simp add: toLowerCase_def take_map)
  also have "\<dots> = ''0x''" by (simp add: a toLowerCase_def toLowerChar_def)
  finally show ?thesis .
qed

lemma calculate_address_valid:
  assumes "valid_request req"
  shows "calculate_address rnd req =
     (case findSaltForTermination rnd (the (q_deployerAddress req)) (the (q_bytecodeHash req))
             (clean (the (q_desiredTermination req))) (Some (effective_cap req)) of
        None \<Rightarrow> None
      | Some (Inr result, drawn) \<Rightarrow>
          Some (MiningSuccess result (clean (the (q_desiredTermination req))), drawn)
      | Some (Inl e, drawn) \<Rightarrow> Some (caught e, drawn))"
proof -
  let ?c = "clean (the (q_desiredTermination req))"
  from assms have "\<not> (length ?c = 0 \<or> 8 < length ?c)"
    by (auto simp: valid_request_def valid_termination_def)
  moreover from assms have
    "\<not> (missing (q_deployerAddress req) \<or> missing (q_bytecodeHash req) \<or> missing (q_desiredTermination req))"
    by (simp add: valid_request_def)
  ultimately show ?thesis
    by (simp only: calculate_address_def Let_def effective_cap_def if_False)
qed

lemma calculate_address_invalid:
  assumes "\<not> valid_request req"
  shows "\<exists>msg. calculate_address rnd req = Some (Failure 400 msg, 0)"
proof (cases "missing (q_deployerAddress req) \<or> missing (q_bytecodeHash req) \<or> missing (q_desiredTermination req)")
  case True
  then show ?thesis by (simp add: calculate_address_def)
next
  case False
  let ?c = "clean (the (q_desiredTermination req))"
  from False assms lower_hex_clean [of "the (q_desiredTermination req)"]
  have "length ?c = 0 \<or> 8 < length ?c"
    by (cases ?c) (auto simp: valid_request_def valid_termination_def)
  with False show ?thesis by (simp add: calculate_address_def Let_def)
qed



lemma findSalt_returns:
  assumes "cap \<noteq> Some PlusInfinity"
  shows "\<exists>y. findSaltForTermination rnd d h t cap = Some y"
proof -
  from assms have "(case cap of None \<Rightarrow> Num 1000000 | Some m \<Rightarrow> m) \<noteq> PlusInfinity"
    by (cases cap) simp_all
  from loop_returns [OF this] show ?thesis
    by (simp add: findSaltForTermination_def)
qed




subsection \<open>The known vector, evaluated\<close>

lemma keccak_empty: "ethers_keccak256 [] = vector_initCodeHash"
  by code_simp

lemma address_vector:
  "calculateCREATE2Address vector_deployer vector_salt vector_initCodeHash = Inr vector_address"
  by code_simp

lemma vector_wellformed:
  "isHexStringLen vector_deployer 20 \<and> isHexStringLen vector_salt 32 \<and> isHexStringLen vector_initCodeHash 32"
  by code_simp

lemma zero_salt_hex: "''0x'' @ hexlify (replicate 32 0) = vector_salt"
  by code_simp

lemma vector_match: "endsWith (toLowerCase vector_address) (toLowerCase ''e0'')"
  by code_simp

lemma vector_no_match: "\<not> endsWith (toLowerCase vector_address) (toLowerCase ''ff'')"
  by code_simp

lemma length_hex_decode: "length (hex_decode s) = (length s + 1) div 2"
  by (induction s rule: hex_decode.induct) simp_all

lemma source_vector:
  "calculateCREATE2Address vector_deployer (''0x'' @ hexlify (constant_source (replicate 32 0) k))
     vector_initCodeHash = Inr vector_address"
  by (simp only: constant_source_def zero_salt_hex address_vector)

lemma mine_e0:
  "findSaltForTermination (constant_source (replicate 32 0)) vector_deployer vector_initCodeHash ''e0''
     (Some (Num 5))
     = Some (Inr \<lparr>r_salt = vector_salt, r_address = vector_address, r_attempts = 1\<rparr>, 1)"
proof -
  have "findSalt_loop (constant_source (replicate 32 0)) vector_deployer vector_initCodeHash
          (toLowerCase ''e0'') (Num 5) 0 0 =
        Some (Inr \<lparr>r_salt = ''0x'' @ hexlify (constant_source (replicate 32 0) 0),
                    r_address = vector_address, r_attempts = 0 + 1\<rparr>, Suc 0)"
  proof (rule loop_match [where rnd = "constant_source (replicate 32 0)" and drawn = 0])
    show "counter_less 0 (Num 5)" by simp
  qed (rule source_vector vector_match)+
  then have "findSalt_loop (constant_source (replicate 32 0)) vector_deployer vector_initCodeHash
          (toLowerCase ''e0'') (Num 5) 0 0 =
        Some (Inr \<lparr>r_salt = vector_salt, r_address = vector_address, r_attempts = 0 + 1\<rparr>, Suc 0)"
    by (simp only: constant_source_def zero_salt_hex)
  then show ?thesis
    by (simp add: findSaltForTermination_def)
qed

lemma mine_ff:
  "findSaltForTermination (constant_source (replicate 32 0)) vector_deployer vector_initCodeHash ''ff''
     (Some (Num q))
     = Some (Inl exhausted, nat \<lceil>q\<rceil>)"
proof -
  have L: "\<And>a. counter_less a (Num q) = (a < nat \<lceil>q\<rceil>)" by (rule counter_less_Num)
  have "findSalt_loop (constant_source (replicate 32 0)) vector_deployer vector_initCodeHash
          (toLowerCase ''ff'') (Num q) 0 0 =
        Some (Inl (Error ''Maximum attempts reached without finding suitable salt''),
              0 + (nat \<lceil>q\<rceil> - 0))"
    by (rule loop_no_match [OF L]) (use source_vector vector_no_match in blast)
  then show ?thesis
    by (simp add: findSaltForTermination_def exhausted_def)
qed

subsection \<open>The claims\<close>

lemma isHexStringLen_even_hex: "isHexStringLen v n \<Longrightarrow> even_hex v"
  by (simp add: isHexStringLen_def even_hex_def)

lemma isHexStringLen_decode: "isHexStringLen v n \<Longrightarrow> length (hex_decode (drop 2 v)) = n"
  by (simp add: isHexStringLen_def length_hex_decode)

text \<open>
  Claim C1. For every well-formed 20-byte deployer, 32-byte salt and 32-byte init-code hash
  (given, as the server receives them, as \<open>0x\<close> strings), the buffer that is hashed has
  85 bytes, \<open>0xff || deployer || salt || initCodeHash\<close>, and \<open>calculateCREATE2Address\<close>
  returns the reference CREATE2 address: the low 20 bytes of the Keccak-256 digest of that
  buffer in the mixed-case checksum encoding. For the all-zero deployer, the all-zero salt
  and the Keccak-256 hash of the empty bytecode it returns the address of the reference
  test vector, \<open>0xE33C0C7F7df4809055C3ebA6c09CFe4BaF1BD9e0\<close>.
\<close>

theorem calculateCREATE2Address_is_create2:
  "(\<forall>deployer salt initCodeHash.
      isHexStringLen deployer 20 \<and> isHexStringLen salt 32 \<and> isHexStringLen initCodeHash 32 \<longrightarrow>
        length ([0xff] @ hex_decode (drop 2 deployer) @ hex_decode (drop 2 salt)
                  @ hex_decode (drop 2 initCodeHash)) = 85 \<and>
        calculateCREATE2Address deployer salt initCodeHash =
          Inr (create2_reference (hex_decode (drop 2 deployer)) (hex_decode (drop 2 salt))
                 (hex_decode (drop 2 initCodeHash))))
   \<and> calculateCREATE2Address vector_deployer vector_salt (ethers_keccak256 []) = Inr vector_address"
proof (intro conjI allI impI)
  fix deployer salt initCodeHash
  assume wf: "isHexStringLen deployer 20 \<and> isHexStringLen salt 32 \<and> isHexStringLen initCodeHash 32"
  then show "length ([0xff] @ hex_decode (drop 2 deployer) @ hex_decode (drop 2 salt)
                  @ hex_decode (drop 2 initCodeHash)) = 85"
    by (auto simp: isHexStringLen_decode)
  from wf show "calculateCREATE2Address deployer salt initCodeHash =
          Inr (create2_reference (hex_decode (drop 2 deployer)) (hex_decode (drop 2 salt))
                 (hex_decode (drop 2 initCodeHash)))"
    by (intro calculate_even_hex) (blast intro: isHexStringLen_even_hex)+
next
  show "calculateCREATE2Address vector_deployer vector_salt (ethers_keccak256 []) = Inr vector_address"
    by (simp only: keccak_empty address_vector)
qed

theorem calculateCREATE2Address_is_create2_witness:
  "isHexStringLen vector_deployer 20 \<and> isHexStringLen vector_salt 32 \<and>
   isHexStringLen vector_initCodeHash 32 \<and>
   create2_reference (hex_decode (drop 2 vector_deployer)) (hex_decode (drop 2 vector_salt))
     (hex_decode (drop 2 vector_initCodeHash)) = vector_address"
proof -
  from calculateCREATE2Address_is_create2 vector_wellformed
  have "calculateCREATE2Address vector_deployer vector_salt vector_initCodeHash =
          Inr (create2_reference (hex_decode (drop 2 vector_deployer)) (hex_decode (drop 2 vector_salt))
                 (hex_decode (drop 2 vector_initCodeHash)))"
    by blast
  with address_vector vector_wellformed show ?thesis by simp
qed

lemma findSalt_success:
  assumes "findSaltForTermination rnd d h t cap = Some (Inr r, n)"
  shows "suffix (toLowerCase t) (toLowerCase (r_address r)) \<and>
         endsWith (toLowerCase (r_address r)) (toLowerCase t) \<and>
         calculateCREATE2Address d (r_salt r) h = Inr (r_address r) \<and>
         r_salt r = ''0x'' @ hexlify (rnd (n - 1)) \<and>
         1 \<le> r_attempts r \<and>
         counter_less (r_attempts r - 1) (case cap of None \<Rightarrow> Num 1000000 | Some m \<Rightarrow> m) \<and>
         n = r_attempts r \<and>
         (\<forall>i < n - 1. \<exists>a. calculateCREATE2Address d (''0x'' @ hexlify (rnd i)) h = Inr a
                            \<and> \<not> endsWith (toLowerCase a) (toLowerCase t))"
proof -
  from assms have l: "findSalt_loop rnd d h (toLowerCase t)
      (case cap of None \<Rightarrow> Num 1000000 | Some m \<Rightarrow> m) 0 0 = Some (Inr r, n)"
    by (simp add: findSaltForTermination_def)
  from loop_success [OF l]
  have s: "endsWith (toLowerCase (r_address r)) (toLowerCase t)"
    "calculateCREATE2Address d (r_salt r) h = Inr (r_address r)"
    "r_salt r = ''0x'' @ hexlify (rnd (n - 1))"
    "0 < r_attempts r"
    "counter_less (r_attempts r - 1) (case cap of None \<Rightarrow> Num 1000000 | Some m \<Rightarrow> m)"
    "n = 0 + (r_attempts r - 0)"
    by blast+
  from loop_trace [OF l]
  have "\<forall>i. 0 \<le> i \<and> i < n - 1 \<longrightarrow>
            (\<exists>addr. calculateCREATE2Address d (''0x'' @ hexlify (rnd i)) h = Inr addr
                   \<and> \<not> endsWith (toLowerCase addr) (toLowerCase t))"
    by blast
  then have t: "\<forall>i < n - 1. \<exists>a. calculateCREATE2Address d (''0x'' @ hexlify (rnd i)) h = Inr a
                            \<and> \<not> endsWith (toLowerCase a) (toLowerCase t)"
    by blast
  from s(1) have "suffix (toLowerCase t) (toLowerCase (r_address r))"
    by (simp only: endsWith_suffix)
  moreover from s(4) have "1 \<le> r_attempts r" by simp
  moreover from s(6) have "n = r_attempts r" by simp
  ultimately show ?thesis using s(1,2,3,5) t by blast
qed

lemma calculate_address_success:
  assumes "calculate_address rnd req = Some (MiningSuccess r term, n)"
  shows "valid_request req \<and> term = clean (the (q_desiredTermination req)) \<and>
         findSaltForTermination rnd (the (q_deployerAddress req)) (the (q_bytecodeHash req)) term
           (Some (effective_cap req)) = Some (Inr r, n)"
proof (cases "valid_request req")
  case False
  from calculate_address_invalid [OF this, of rnd] assms show ?thesis by auto
next
  case True
  show ?thesis
  proof (cases "findSaltForTermination rnd (the (q_deployerAddress req))
       (the (q_bytecodeHash req)) (clean (the (q_desiredTermination req)))
       (Some (effective_cap req))")
    case None
    with assms True show ?thesis by (simp add: calculate_address_valid [OF True])
  next
    case (Some y)
    obtain out k where y: "y = (out, k)" by (cases y)
    show ?thesis
    proof (cases out)
      case (Inl e)
      with assms Some y show ?thesis
        by (cases e) (simp_all add: calculate_address_valid [OF True])
    next
      case (Inr res)
      with assms Some y True show ?thesis
        by (simp add: calculate_address_valid [OF True])
    qed
  qed
qed

lemma suffix_in_digits:
  assumes "calculateCREATE2Address d s h = Inr a" "suffix T (toLowerCase a)" "length T \<le> 8"
  shows "length (toLowerCase a) = 42 \<and> take 2 (toLowerCase a) = ''0x'' \<and> suffix T (drop 2 (toLowerCase a))"
proof -
  from calculate_address_shape [OF assms(1)] have a: "length a = 42" "take 2 a = ''0x''"
    by simp_all
  have "suffix T (drop 2 (toLowerCase a))"
    by (rule suffix_drop_short [OF assms(2)]) (use assms(3) in \<open>simp add: toLowerCase_length a\<close>)
  then show ?thesis
    by (simp add: toLowerCase_length a toLowerCase_take2)
qed

text \<open>
  Claim C2. For every result that \<open>findSaltForTermination\<close> returns for a validated
  termination \<open>T\<close> (1 to 8 characters of \<open>0-9a-f\<close>), whatever the cap, the lower-case
  rendering of the address ends with exactly \<open>T\<close>; the address has 42 characters, the
  prefix \<open>0x\<close> and 40 digits, and \<open>T\<close> is a suffix of the 40 digits alone, so the
  compared window never reaches the prefix. The same holds for every success response of
  \<open>/calculate-address\<close>, whose termination is the cleaned one.
\<close>

theorem mined_address_ends_with_termination:
  "(\<forall>T r n. valid_termination T \<and>
        findSaltForTermination rnd deployer initCodeHash T cap = Some (Inr r, n) \<longrightarrow>
          suffix T (toLowerCase (r_address r)) \<and>
          length (toLowerCase (r_address r)) = 42 \<and>
          take 2 (toLowerCase (r_address r)) = ''0x'' \<and>
          suffix T (drop 2 (toLowerCase (r_address r))))
   \<and> (\<forall>req r T n. calculate_address rnd req = Some (MiningSuccess r T, n) \<longrightarrow>
          valid_termination T \<and> T = clean (the (q_desiredTermination req)) \<and>
          suffix T (toLowerCase (r_address r)) \<and>
          suffix T (drop 2 (toLowerCase (r_address r))))"
proof (intro conjI allI impI)
  fix T r n
  assume a: "valid_termination T \<and>
    findSaltForTermination rnd deployer initCodeHash T cap = Some (Inr r, n)"
  then have T: "toLowerCase T = T" "length T \<le> 8"
    by (simp_all add: valid_termination_def toLowerCase_lower_hex)
  from a have f: "findSaltForTermination rnd deployer initCodeHash T cap = Some (Inr r, n)"
    by simp
  from findSalt_success [OF f]
  have "suffix (toLowerCase T) (toLowerCase (r_address r))"
    and c: "calculateCREATE2Address deployer (r_salt r) initCodeHash = Inr (r_address r)"
    by blast+
  then have s: "suffix T (toLowerCase (r_address r))" by (simp only: T)
  from s show "suffix T (toLowerCase (r_address r))" .
  from suffix_in_digits [OF c s T(2)]
  show "length (toLowerCase (r_address r)) = 42" "take 2 (toLowerCase (r_address r)) = ''0x''"
    "suffix T (drop 2 (toLowerCase (r_address r)))"
    by simp_all
next
  fix req r T n
  assume "calculate_address rnd req = Some (MiningSuccess r T, n)"
  from calculate_address_success [OF this]
  have v: "valid_request req" and T: "T = clean (the (q_desiredTermination req))"
    and f: "findSaltForTermination rnd (the (q_deployerAddress req)) (the (q_bytecodeHash req)) T
           (Some (effective_cap req)) = Some (Inr r, n)"
    by blast+
  from v T show vt: "valid_termination T" by (simp add: valid_request_def)
  from T show "T = clean (the (q_desiredTermination req))" .
  from vt have l: "toLowerCase T = T" "length T \<le> 8"
    by (simp_all add: valid_termination_def toLowerCase_lower_hex)
  from findSalt_success [OF f]
  have "suffix (toLowerCase T) (toLowerCase (r_address r))"
    and c: "calculateCREATE2Address (the (q_deployerAddress req)) (r_salt r) (the (q_bytecodeHash req)) = Inr (r_address r)"
    by blast+
  then have s: "suffix T (toLowerCase (r_address r))" by (simp only: l)
  from s show "suffix T (toLowerCase (r_address r))" .
  from suffix_in_digits [OF c s l(2)] show "suffix T (drop 2 (toLowerCase (r_address r)))"
    by simp
qed

lemma valid_e0: "valid_termination ''e0''"
  by code_simp

lemma request_e0:
  "valid_request (vector_request ''E:0'' cap) \<and> clean ''E:0'' = ''e0''"
  by (simp add: valid_request_def vector_request_def) code_simp

lemma handler_e0:
  "calculate_address (constant_source (replicate 32 0)) (vector_request ''E:0'' (Some (Num 5))) =
     Some (MiningSuccess \<lparr>r_salt = vector_salt, r_address = vector_address, r_attempts = 1\<rparr> ''e0'', 1)"
proof -
  have v: "valid_request (vector_request ''E:0'' (Some (Num 5)))"
    using request_e0 by blast
  have "the (q_deployerAddress (vector_request ''E:0'' (Some (Num 5)))) = vector_deployer"
    "the (q_bytecodeHash (vector_request ''E:0'' (Some (Num 5)))) = vector_initCodeHash"
    "clean (the (q_desiredTermination (vector_request ''E:0'' (Some (Num 5))))) = ''e0''"
    "effective_cap (vector_request ''E:0'' (Some (Num 5))) = Num 5"
    using request_e0 by (simp_all add: vector_request_def effective_cap_def)
  then show ?thesis
    by (simp add: calculate_address_valid [OF v] mine_e0)
qed

theorem mined_address_ends_with_termination_witness:
  "valid_termination ''e0'' \<and>
   findSaltForTermination (constant_source (replicate 32 0)) vector_deployer vector_initCodeHash ''e0''
     (Some (Num 5))
     = Some (Inr \<lparr>r_salt = vector_salt, r_address = vector_address, r_attempts = 1\<rparr>, 1) \<and>
   calculate_address (constant_source (replicate 32 0)) (vector_request ''E:0'' (Some (Num 5))) =
     Some (MiningSuccess \<lparr>r_salt = vector_salt, r_address = vector_address, r_attempts = 1\<rparr> ''e0'', 1) \<and>
   suffix ''e0'' (toLowerCase vector_address) \<and>
   suffix ''e0'' (drop 2 (toLowerCase vector_address))"
proof -
  note inst = mined_address_ends_with_termination
    [of "constant_source (replicate 32 0)" vector_deployer vector_initCodeHash "Some (Num 5)"]
  from inst valid_e0 mine_e0
  have "suffix ''e0'' (toLowerCase (r_address \<lparr>r_salt = vector_salt, r_address = vector_address, r_attempts = 1\<rparr>))
    \<and> suffix ''e0'' (drop 2 (toLowerCase (r_address \<lparr>r_salt = vector_salt, r_address = vector_address, r_attempts = 1\<rparr>)))"
    by blast
  with valid_e0 mine_e0 handler_e0 show ?thesis by simp
qed

lemma findSalt_exhausted:
  assumes "findSaltForTermination rnd d h t (Some m) = Some (Inl exhausted, n)"
  shows "(\<forall>L. (\<forall>a. counter_less a m = (a < L)) \<longrightarrow> n = L) \<and>
         (\<forall>i < n. \<exists>a. calculateCREATE2Address d (''0x'' @ hexlify (rnd i)) h = Inr a
                        \<and> \<not> endsWith (toLowerCase a) (toLowerCase t))"
proof -
  from assms have l: "findSalt_loop rnd d h (toLowerCase t) m 0 0 =
      Some (Inl (Error ''Maximum attempts reached without finding suitable salt''), n)"
    by (simp add: findSaltForTermination_def exhausted_def)
  have "n = L" if "\<forall>a. counter_less a m = (a < L)" for L
    using loop_exhausted_drawn [OF l, of L] that by simp
  moreover from loop_exhausted [OF l]
  have "\<forall>i. 0 \<le> i \<and> i < n \<longrightarrow>
            (\<exists>addr. calculateCREATE2Address d (''0x'' @ hexlify (rnd i)) h = Inr addr
                   \<and> \<not> endsWith (toLowerCase addr) (toLowerCase t))"
    by blast
  ultimately show ?thesis by blast
qed

lemma findSalt_outcomes:
  assumes "findSaltForTermination rnd d h t cap = Some (Inl e, n)"
  shows "(\<exists>m. e = ArgumentError m) \<or> e = exhausted"
proof (cases e)
  case (ArgumentError m)
  then show ?thesis by simp
next
  case (Error msg)
  with assms have "findSalt_loop rnd d h (toLowerCase t)
      (case cap of None \<Rightarrow> Num 1000000 | Some m \<Rightarrow> m) 0 0 = Some (Inl (Error msg), n)"
    by (simp add: findSaltForTermination_def)
  from loop_exhausted [OF this] Error show ?thesis by (simp add: exhausted_def)
qed

lemma findSalt_thrown:
  assumes "findSaltForTermination rnd d h t (Some m) = Some (Inl e, n)" and "e \<noteq> exhausted"
  shows "1 \<le> n \<and> calculateCREATE2Address d (''0x'' @ hexlify (rnd (n - 1))) h = Inl e \<and>
         (\<forall>L. (\<forall>a. counter_less a m = (a < L)) \<longrightarrow> n \<le> L) \<and>
         (\<forall>i < n - 1. \<exists>a. calculateCREATE2Address d (''0x'' @ hexlify (rnd i)) h = Inr a
                            \<and> \<not> endsWith (toLowerCase a) (toLowerCase t))"
proof -
  from findSalt_outcomes [OF assms(1)] assms(2) obtain reason where e: "e = ArgumentError reason"
    by blast
  from assms(1) have l: "findSalt_loop rnd d h (toLowerCase t) m 0 0 = Some (Inl e, n)"
    by (simp add: findSaltForTermination_def)
  from loop_thrown [OF l [unfolded e]]
  have "1 \<le> n" "calculateCREATE2Address d (''0x'' @ hexlify (rnd (n - 1))) h = Inl e"
    unfolding e by simp_all
  moreover have "n \<le> L" if "\<forall>a. counter_less a m = (a < L)" for L
    using loop_drawn [OF l, of L] that by simp
  moreover from loop_trace [OF l]
  have "\<forall>i. 0 \<le> i \<and> i < n - 1 \<longrightarrow>
            (\<exists>addr. calculateCREATE2Address d (''0x'' @ hexlify (rnd i)) h = Inr addr
                   \<and> \<not> endsWith (toLowerCase addr) (toLowerCase t))"
    by blast
  ultimately show ?thesis by blast
qed

lemma counter_less_int: "counter_less a (Num (of_int c)) = (a < nat c)"
  by (simp only: counter_less_Num ceiling_of_int)

text \<open>
  Claim C3. For a cap that is a positive integer the search returns, and: a result has an
  \<open>attempts\<close> field of at least 1 and at most the cap, equal to the number of salts
  drawn; its salt is the last one drawn, its address is derived from that salt and
  matches, and every salt drawn before it was derived and did not match. When the search
  fails because the cap was reached, the number of salts drawn equals the cap exactly,
  and every one of them was derived and did not match. The only other outcome is the
  error of the derivation at the last salt drawn, after at most as many salts as the cap,
  all but the last derived without a match.
\<close>

theorem attempts_accounting:
  assumes "0 < cap"
  shows "(\<exists>out n. findSaltForTermination rnd d h t (Some (Num (of_int cap))) = Some (out, n))
       \<and> (\<forall>r n. findSaltForTermination rnd d h t (Some (Num (of_int cap))) = Some (Inr r, n) \<longrightarrow>
            1 \<le> r_attempts r \<and> int (r_attempts r) \<le> cap \<and> n = r_attempts r \<and>
            r_salt r = ''0x'' @ hexlify (rnd (n - 1)) \<and>
            calculateCREATE2Address d (r_salt r) h = Inr (r_address r) \<and>
            endsWith (toLowerCase (r_address r)) (toLowerCase t) \<and>
            (\<forall>i < n - 1. \<exists>a. calculateCREATE2Address d (''0x'' @ hexlify (rnd i)) h = Inr a
                               \<and> \<not> endsWith (toLowerCase a) (toLowerCase t)))
       \<and> (\<forall>n. findSaltForTermination rnd d h t (Some (Num (of_int cap))) = Some (Inl exhausted, n) \<longrightarrow>
            int n = cap \<and>
            (\<forall>i < n. \<exists>a. calculateCREATE2Address d (''0x'' @ hexlify (rnd i)) h = Inr a
                           \<and> \<not> endsWith (toLowerCase a) (toLowerCase t)))
       \<and> (\<forall>e n. findSaltForTermination rnd d h t (Some (Num (of_int cap))) = Some (Inl e, n) \<and>
                e \<noteq> exhausted \<longrightarrow>
            1 \<le> n \<and> int n \<le> cap \<and>
            calculateCREATE2Address d (''0x'' @ hexlify (rnd (n - 1))) h = Inl e \<and>
            (\<forall>i < n - 1. \<exists>a. calculateCREATE2Address d (''0x'' @ hexlify (rnd i)) h = Inr a
                               \<and> \<not> endsWith (toLowerCase a) (toLowerCase t)))"
proof (intro conjI allI impI)
  have "Some (Num (of_int cap)) \<noteq> Some PlusInfinity" by simp
  from findSalt_returns [OF this, of rnd d h t]
  show "\<exists>out n. findSaltForTermination rnd d h t (Some (Num (of_int cap))) = Some (out, n)"
    by auto
next
  fix r n
  assume a: "findSaltForTermination rnd d h t (Some (Num (of_int cap))) = Some (Inr r, n)"
  from findSalt_success [OF a]
  have s: "endsWith (toLowerCase (r_address r)) (toLowerCase t)"
    "calculateCREATE2Address d (r_salt r) h = Inr (r_address r)"
    "r_salt r = ''0x'' @ hexlify (rnd (n - 1))"
    "1 \<le> r_attempts r"
    "counter_less (r_attempts r - 1) (case Some (Num (of_int cap)) of None \<Rightarrow> Num 1000000 | Some m \<Rightarrow> m)"
    "n = r_attempts r"
    "\<forall>i < n - 1. \<exists>a. calculateCREATE2Address d (''0x'' @ hexlify (rnd i)) h = Inr a
                            \<and> \<not> endsWith (toLowerCase a) (toLowerCase t)"
    by blast+
  from s(5) have "r_attempts r - 1 < nat cap" by (simp only: option.case counter_less_int)
  with s(4) show "int (r_attempts r) \<le> cap" by linarith
  from s show "1 \<le> r_attempts r" "n = r_attempts r"
    "r_salt r = ''0x'' @ hexlify (rnd (n - 1))"
    "calculateCREATE2Address d (r_salt r) h = Inr (r_address r)"
    "endsWith (toLowerCase (r_address r)) (toLowerCase t)"
    by blast+
  fix i assume "i < n - 1"
  with s(7) show "\<exists>a. calculateCREATE2Address d (''0x'' @ hexlify (rnd i)) h = Inr a
                               \<and> \<not> endsWith (toLowerCase a) (toLowerCase t)"
    by blast
next
  fix n
  assume a: "findSaltForTermination rnd d h t (Some (Num (of_int cap))) = Some (Inl exhausted, n)"
  have "\<forall>a. counter_less a (Num (of_int cap)) = (a < nat cap)"
    by (simp only: counter_less_int) simp
  with findSalt_exhausted [OF a] have "n = nat cap" by blast
  with assms show "int n = cap" by simp
  fix i assume "i < n"
  with findSalt_exhausted [OF a]
  show "\<exists>a. calculateCREATE2Address d (''0x'' @ hexlify (rnd i)) h = Inr a
                           \<and> \<not> endsWith (toLowerCase a) (toLowerCase t)"
    by blast
next
  fix e n
  assume a: "findSaltForTermination rnd d h t (Some (Num (of_int cap))) = Some (Inl e, n) \<and>
                e \<noteq> exhausted"
  then have f: "findSaltForTermination rnd d h t (Some (Num (of_int cap))) = Some (Inl e, n)"
    and ne: "e \<noteq> exhausted"
    by simp_all
  have c: "\<forall>a. counter_less a (Num (of_int cap)) = (a < nat cap)"
    by (simp only: counter_less_int) simp
  note th = findSalt_thrown [OF f ne]
  from th show "1 \<le> n" by blast
  from th c have "n \<le> nat cap" by blast
  with assms show "int n \<le> cap" by simp
  from th show "calculateCREATE2Address d (''0x'' @ hexlify (rnd (n - 1))) h = Inl e" by blast
  fix i assume "i < n - 1"
  with th show "\<exists>a. calculateCREATE2Address d (''0x'' @ hexlify (rnd i)) h = Inr a
                               \<and> \<not> endsWith (toLowerCase a) (toLowerCase t)"
    by blast
qed

theorem attempts_accounting_witness:
  "(0::int) < 5 \<and>
   findSaltForTermination (constant_source (replicate 32 0)) vector_deployer vector_initCodeHash ''e0''
     (Some (Num 5))
     = Some (Inr \<lparr>r_salt = vector_salt, r_address = vector_address, r_attempts = 1\<rparr>, 1) \<and>
   (1::nat) \<le> 1 \<and> int 1 \<le> 5 \<and>
   (0::int) < 2 \<and>
   findSaltForTermination (constant_source (replicate 32 0)) vector_deployer vector_initCodeHash ''ff''
     (Some (Num 2))
     = Some (Inl exhausted, 2) \<and> int 2 = 2 \<and>
   calculateCREATE2Address vector_deployer
     (''0x'' @ hexlify (constant_source (replicate 32 0) 1)) vector_initCodeHash = Inr vector_address \<and>
   \<not> endsWith (toLowerCase vector_address) (toLowerCase ''ff'')"
proof -
  have c: "(0::int) < 5" "(0::int) < 2" by simp_all
  have e: "findSaltForTermination (constant_source (replicate 32 0)) vector_deployer
             vector_initCodeHash ''e0'' (Some (Num (of_int 5)))
     = Some (Inr \<lparr>r_salt = vector_salt, r_address = vector_address, r_attempts = 1\<rparr>, 1)"
    using mine_e0 by simp
  from attempts_accounting [OF c(1)] e
  have "1 \<le> r_attempts \<lparr>r_salt = vector_salt, r_address = vector_address, r_attempts = 1\<rparr> \<and>
        int (r_attempts \<lparr>r_salt = vector_salt, r_address = vector_address, r_attempts = 1\<rparr>) \<le> 5"
    by blast
  moreover have m: "findSaltForTermination (constant_source (replicate 32 0)) vector_deployer
             vector_initCodeHash ''ff'' (Some (Num (of_int 2)))
     = Some (Inl exhausted, 2)"
    using mine_ff [of 2] by simp
  moreover from attempts_accounting [OF c(2)] m
  have "int 2 = 2 \<and> (\<forall>i < 2. \<exists>a. calculateCREATE2Address vector_deployer
            (''0x'' @ hexlify (constant_source (replicate 32 0) i)) vector_initCodeHash = Inr a
               \<and> \<not> endsWith (toLowerCase a) (toLowerCase ''ff''))"
    by blast
  then have "\<exists>a. calculateCREATE2Address vector_deployer
            (''0x'' @ hexlify (constant_source (replicate 32 0) 1)) vector_initCodeHash = Inr a
               \<and> \<not> endsWith (toLowerCase a) (toLowerCase ''ff'')"
    by simp
  then have "\<not> endsWith (toLowerCase vector_address) (toLowerCase ''ff'')"
    by (simp only: source_vector) blast
  ultimately show ?thesis using mine_e0 source_vector by simp
qed

lemma request_ff:
  "valid_request (vector_request ''ff'' cap) \<and> clean ''ff'' = ''ff''"
  by (simp add: valid_request_def vector_request_def) code_simp

lemma handler_ff:
  assumes "q \<le> 1000000"
  shows "calculate_address (constant_source (replicate 32 0)) (vector_request ''ff'' (Some (Num q))) =
     Some (Failure 500 ''Maximum attempts reached without finding suitable salt'', nat \<lceil>q\<rceil>)"
proof -
  have e: "effective_cap (vector_request ''ff'' (Some (Num q))) = Num q"
    using assms by (simp add: effective_cap_def vector_request_def)
  have v: "valid_request (vector_request ''ff'' (Some (Num q)))"
    using request_ff by blast
  have "the (q_deployerAddress (vector_request ''ff'' (Some (Num q)))) = vector_deployer"
    "the (q_bytecodeHash (vector_request ''ff'' (Some (Num q)))) = vector_initCodeHash"
    "clean (the (q_desiredTermination (vector_request ''ff'' (Some (Num q))))) = ''ff''"
    using request_ff by (simp_all add: vector_request_def)
  then show ?thesis
    by (simp add: calculate_address_valid [OF v] e mine_ff exhausted_def)
qed

text \<open>
  Claim C4 as stated (the attempt count is part of the error result) fails: two searches
  that give up after 1 and after 2 attempts produce the same error message, with no
  count in it.
\<close>

theorem exhausted_error_with_count_counterexample:
  "calculate_address (constant_source (replicate 32 0)) (vector_request ''ff'' (Some (Num 1))) =
     Some (Failure 500 ''Maximum attempts reached without finding suitable salt'', 1) \<and>
   calculate_address (constant_source (replicate 32 0)) (vector_request ''ff'' (Some (Num 2))) =
     Some (Failure 500 ''Maximum attempts reached without finding suitable salt'', 2) \<and>
   findSaltForTermination (constant_source (replicate 32 0)) vector_deployer vector_initCodeHash ''ff''
     (Some (Num 2))
     = Some (Inl (Error ''Maximum attempts reached without finding suitable salt''), 2)"
  using handler_ff [of 1] handler_ff [of 2] mine_ff [of 2] by (simp add: exhausted_def)

text \<open>
  Claim C4, as amended. When no salt among the first \<open>attemptCap\<close> ones matches (for a cap
  that is not a whole number: among as many as the cap rounded up), the search fails with
  the fixed error \<open>Maximum attempts reached without finding suitable salt\<close> after exactly
  that many attempts, and the handler surfaces it as a response of status 500 that
  carries that message only: the number of attempts is not part of the error result.
\<close>

theorem exhausted_error_is_fixed:
  assumes "\<forall>i < nat \<lceil>q\<rceil>. \<exists>a. calculateCREATE2Address d (''0x'' @ hexlify (rnd i)) h = Inr a
                              \<and> \<not> endsWith (toLowerCase a) (toLowerCase t)"
  shows "findSaltForTermination rnd d h t (Some (Num q)) =
           Some (Inl (Error ''Maximum attempts reached without finding suitable salt''), nat \<lceil>q\<rceil>)
       \<and> (\<forall>req. valid_request req \<and> q_deployerAddress req = Some d \<and> q_bytecodeHash req = Some h \<and>
                 clean (the (q_desiredTermination req)) = t \<and> effective_cap req = Num q \<longrightarrow>
             calculate_address rnd req =
               Some (Failure 500 ''Maximum attempts reached without finding suitable salt'', nat \<lceil>q\<rceil>))"
proof -
  have L: "\<And>a. counter_less a (Num q) = (a < nat \<lceil>q\<rceil>)" by (rule counter_less_Num)
  have "findSalt_loop rnd d h (toLowerCase t) (Num q) 0 0 =
      Some (Inl (Error ''Maximum attempts reached without finding suitable salt''),
            0 + (nat \<lceil>q\<rceil> - 0))"
    by (rule loop_no_match [OF L]) (use assms in simp)
  then have f: "findSaltForTermination rnd d h t (Some (Num q)) =
           Some (Inl (Error ''Maximum attempts reached without finding suitable salt''), nat \<lceil>q\<rceil>)"
    by (simp add: findSaltForTermination_def)
  show ?thesis
  proof (intro conjI allI impI)
    show "findSaltForTermination rnd d h t (Some (Num q)) =
           Some (Inl (Error ''Maximum attempts reached without finding suitable salt''), nat \<lceil>q\<rceil>)"
      by (rule f)
  next
    fix req
    assume a: "valid_request req \<and> q_deployerAddress req = Some d \<and> q_bytecodeHash req = Some h \<and>
                 clean (the (q_desiredTermination req)) = t \<and> effective_cap req = Num q"
    then have v: "valid_request req" by simp
    show "calculate_address rnd req =
               Some (Failure 500 ''Maximum attempts reached without finding suitable salt'', nat \<lceil>q\<rceil>)"
      using a by (simp add: calculate_address_valid [OF v] f)
  qed
qed

theorem exhausted_error_is_fixed_witness:
  "calculateCREATE2Address vector_deployer
     (''0x'' @ hexlify (constant_source (replicate 32 0) 0)) vector_initCodeHash = Inr vector_address \<and>
   calculateCREATE2Address vector_deployer
     (''0x'' @ hexlify (constant_source (replicate 32 0) 1)) vector_initCodeHash = Inr vector_address \<and>
   \<not> endsWith (toLowerCase vector_address) (toLowerCase ''ff'') \<and>
   nat \<lceil>2 :: rat\<rceil> = 2 \<and>
   valid_request (vector_request ''ff'' (Some (Num 2))) \<and>
   findSaltForTermination (constant_source (replicate 32 0)) vector_deployer vector_initCodeHash ''ff''
     (Some (Num 2))
     = Some (Inl (Error ''Maximum attempts reached without finding suitable salt''), 2) \<and>
   calculate_address (constant_source (replicate 32 0)) (vector_request ''ff'' (Some (Num 2)))
     = Some (Failure 500 ''Maximum attempts reached without finding suitable salt'', 2)"
proof -
  have h: "\<forall>i < nat \<lceil>2 :: rat\<rceil>. \<exists>a. calculateCREATE2Address vector_deployer
                        (''0x'' @ hexlify (constant_source (replicate 32 0) i)) vector_initCodeHash = Inr a
                      \<and> \<not> endsWith (toLowerCase a) (toLowerCase ''ff'')"
    using source_vector vector_no_match by blast
  have q: "valid_request (vector_request ''ff'' (Some (Num 2))) \<and>
      q_deployerAddress (vector_request ''ff'' (Some (Num 2))) = Some vector_deployer \<and>
      q_bytecodeHash (vector_request ''ff'' (Some (Num 2))) = Some vector_initCodeHash \<and>
      clean (the (q_desiredTermination (vector_request ''ff'' (Some (Num 2))))) = ''ff'' \<and>
      effective_cap (vector_request ''ff'' (Some (Num 2))) = Num 2"
    using request_ff [of "Some (Num 2)"] by (simp add: vector_request_def effective_cap_def)
  have n: "nat \<lceil>2 :: rat\<rceil> = 2" by simp
  from exhausted_error_is_fixed [OF h] q
  have "findSaltForTermination (constant_source (replicate 32 0)) vector_deployer vector_initCodeHash ''ff''
     (Some (Num 2))
     = Some (Inl (Error ''Maximum attempts reached without finding suitable salt''), nat \<lceil>2 :: rat\<rceil>) \<and>
   calculate_address (constant_source (replicate 32 0)) (vector_request ''ff'' (Some (Num 2)))
     = Some (Failure 500 ''Maximum attempts reached without finding suitable salt'', nat \<lceil>2 :: rat\<rceil>)"
    by blast
  with q source_vector vector_no_match n show ?thesis by (simp only:) blast
qed

text \<open>
  Claim C10. With an attempt cap of zero or less the loop body never runs: whatever the
  source of randomness, the deployer and the hash (even ones the derivation would reject),
  no salt is drawn and the call fails at once with the error of an exhausted search, after
  0 attempts; \<open>/calculate-address\<close> passes such a \<open>maxAttempts\<close> on and answers with that
  error.
\<close>

theorem nonpositive_cap:
  assumes "cap \<le> 0"
  shows "findSaltForTermination rnd d h t (Some (Num cap)) =
           Some (Inl (Error ''Maximum attempts reached without finding suitable salt''), 0)
       \<and> (\<forall>req. valid_request req \<and> q_maxAttempts req = Some (Num cap) \<longrightarrow>
             calculate_address rnd req =
               Some (Failure 500 ''Maximum attempts reached without finding suitable salt'', 0))"
proof -
  have f: "findSaltForTermination rnd d h t (Some (Num m)) =
           Some (Inl (Error ''Maximum attempts reached without finding suitable salt''), 0)"
    if "m \<le> 0" for rnd d h t m
  proof -
    from that have "\<not> counter_less 0 (Num m)" by simp
    then show ?thesis by (simp add: findSaltForTermination_def loop_stop)
  qed
  show ?thesis
  proof (intro conjI allI impI)
    show "findSaltForTermination rnd d h t (Some (Num cap)) =
           Some (Inl (Error ''Maximum attempts reached without finding suitable salt''), 0)"
      using assms by (rule f)
  next
    fix req
    assume a: "valid_request req \<and> q_maxAttempts req = Some (Num cap)"
    then have v: "valid_request req" by simp
    from a assms have e: "effective_cap req = Num (min cap 1000000)" "min cap 1000000 \<le> 0"
      by (simp_all add: effective_cap_def)
    show "calculate_address rnd req =
               Some (Failure 500 ''Maximum attempts reached without finding suitable salt'', 0)"
      by (simp add: calculate_address_valid [OF v] e(1) f [OF e(2)])
  qed
qed

theorem nonpositive_cap_witness:
  "(- 3::rat) \<le> 0 \<and> valid_request (vector_request ''ff'' (Some (Num (- 3)))) \<and>
   findSaltForTermination (constant_source (replicate 32 0)) ''not an address'' vector_initCodeHash ''ff''
     (Some (Num (- 3))) =
           Some (Inl (Error ''Maximum attempts reached without finding suitable salt''), 0) \<and>
   calculate_address (constant_source (replicate 32 0)) (vector_request ''ff'' (Some (Num (- 3)))) =
               Some (Failure 500 ''Maximum attempts reached without finding suitable salt'', 0)"
proof -
  have c: "(- 3::rat) \<le> 0" by simp
  have v: "valid_request (vector_request ''ff'' (Some (Num (- 3))))" using request_ff by blast
  have q: "q_maxAttempts (vector_request ''ff'' (Some (Num (- 3)))) = Some (Num (- 3))"
    by (simp add: vector_request_def)
  from nonpositive_cap [OF c] v q c show ?thesis by blast
qed




lemma clean_Nil: "clean [] = []"
  by (simp add: clean_def toLowerCase_def)

lemma validate_invalid:
  assumes "t \<noteq> []" "length (clean t) = 0 \<or> 8 < length (clean t)"
  shows "validate_termination (Some t) =
           Report \<lparr>valid = False, cleaned = clean t, difficulty = ''Unknown'',
                   estimatedTime = ''Unknown'', maxLength = 8\<rparr>"
  using assms by (auto simp: validate_termination_def missing_def Let_def)

lemma validate_valid:
  assumes "valid_termination (clean t)"
  shows "validate_termination (Some t) =
           Report \<lparr>valid = True, cleaned = clean t,
                   difficulty = fst (spec_tier (16 ^ length (clean t))),
                   estimatedTime = snd (spec_tier (16 ^ length (clean t))), maxLength = 8\<rparr>"
proof -
  from assms have ne: "clean t \<noteq> []" by (cases "clean t") (auto simp: valid_termination_def)
  then have "t \<noteq> []" using clean_Nil by auto
  with assms ne show ?thesis
    by (simp add: validate_termination_def missing_def Let_def valid_termination_def spec_tier_def)
qed

text \<open>
  Claim C5 as stated (the estimator produces an InvalidInput error for an invalid
  termination) fails: for \<open>xyz\<close>, which is empty once stripped, \<open>/validate-termination\<close>
  answers with a successful report marked invalid.
\<close>

theorem estimator_reports_invalid_counterexample:
  "clean ''xyz'' = [] \<and>
   validate_termination (Some ''xyz'') =
     Report \<lparr>valid = False, cleaned = [], difficulty = ''Unknown'',
             estimatedTime = ''Unknown'', maxLength = 8\<rparr>"
  by code_simp

text \<open>
  Claim C5, as amended. For every termination string whose stripped, lower-cased form is
  empty or longer than 8 characters (the stripped form never holds a character outside
  \<open>0-9a-f\<close>): \<open>/calculate-address\<close> answers with an error of status 400 and draws no
  salt, whatever the source of randomness; \<open>/validate-termination\<close> does not fail when the
  raw string is not empty, it returns a report with \<open>valid = false\<close> and the difficulty
  and time \<open>Unknown\<close>, and answers with status 400 only when the raw string is empty.
\<close>

theorem invalid_termination_handling:
  assumes "length (clean t) = 0 \<or> 8 < length (clean t)"
  shows "(\<forall>rnd (req :: CalculateRequest). q_desiredTermination req = Some t \<longrightarrow>
            (\<exists>msg. calculate_address rnd req = Some (Failure 400 msg, 0)))
       \<and> (\<forall>rnd (req :: CalculateRequest). q_desiredTermination req = Some t \<and> t \<noteq> [] \<and>
              \<not> missing (q_deployerAddress req) \<and> \<not> missing (q_bytecodeHash req) \<longrightarrow>
            calculate_address rnd req =
              Some (Failure 400 ''Invalid termination. Must be 1-8 hexadecimal characters.'', 0))
       \<and> (t \<noteq> [] \<longrightarrow>
            validate_termination (Some t) =
              Report \<lparr>valid = False, cleaned = clean t, difficulty = ''Unknown'',
                      estimatedTime = ''Unknown'', maxLength = 8\<rparr>)
       \<and> (t = [] \<longrightarrow> validate_termination (Some t) = Failure 400 ''termination is required'')
       \<and> list_all is_lower_hex (clean t)"
proof (intro conjI allI impI)
  fix rnd and req :: CalculateRequest
  assume "q_desiredTermination req = Some t"
  with assms have "\<not> valid_request req"
    by (auto simp: valid_request_def valid_termination_def)
  then show "\<exists>msg. calculate_address rnd req = Some (Failure 400 msg, 0)"
    by (rule calculate_address_invalid)
next
  fix rnd and req :: CalculateRequest
  assume "q_desiredTermination req = Some t \<and> t \<noteq> [] \<and>
              \<not> missing (q_deployerAddress req) \<and> \<not> missing (q_bytecodeHash req)"
  then have m: "\<not> (missing (q_deployerAddress req) \<or> missing (q_bytecodeHash req) \<or>
                   missing (q_desiredTermination req))"
    and c: "clean (the (q_desiredTermination req)) = clean t"
    by (simp_all add: missing_def)
  from assms have "length (clean t) = 0 \<or> length (clean t) > 8" by simp
  with m c show "calculate_address rnd req =
              Some (Failure 400 ''Invalid termination. Must be 1-8 hexadecimal characters.'', 0)"
    by (simp only: calculate_address_def Let_def if_False if_True)
next
  assume "t \<noteq> []"
  then show "validate_termination (Some t) =
              Report \<lparr>valid = False, cleaned = clean t, difficulty = ''Unknown'',
                      estimatedTime = ''Unknown'', maxLength = 8\<rparr>"
    using assms by (rule validate_invalid)
next
  assume "t = []"
  then show "validate_termination (Some t) = Failure 400 ''termination is required''"
    by (simp add: validate_termination_def missing_def)
next
  show "list_all is_lower_hex (clean t)" by (rule lower_hex_clean)
qed

lemma clean_examples: "clean ''xyz'' = [] \<and> clean ''123456789'' = ''123456789''"
  by code_simp

theorem invalid_termination_handling_witness:
  "(length (clean ''xyz'') = 0 \<or> 8 < length (clean ''xyz'')) \<and>
   (length (clean ''123456789'') = 0 \<or> 8 < length (clean ''123456789'')) \<and>
   calculate_address (constant_source (replicate 32 0)) (vector_request ''xyz'' None) =
     Some (Failure 400 ''Invalid termination. Must be 1-8 hexadecimal characters.'', 0) \<and>
   calculate_address (constant_source (replicate 32 0)) (vector_request ''123456789'' None) =
     Some (Failure 400 ''Invalid termination. Must be 1-8 hexadecimal characters.'', 0) \<and>
   validate_termination (Some ''123456789'') =
     Report \<lparr>valid = False, cleaned = ''123456789'', difficulty = ''Unknown'',
             estimatedTime = ''Unknown'', maxLength = 8\<rparr> \<and>
   validate_termination (Some []) = Failure 400 ''termination is required''"
proof -
  have h1: "length (clean ''xyz'') = 0 \<or> 8 < length (clean ''xyz'')"
    and h2: "length (clean ''123456789'') = 0 \<or> 8 < length (clean ''123456789'')"
    using clean_examples by simp_all
  have r: "q_desiredTermination (vector_request u None) = Some u \<and>
        \<not> missing (q_deployerAddress (vector_request u None)) \<and>
        \<not> missing (q_bytecodeHash (vector_request u None))" for u
    by (simp add: vector_request_def missing_def vector_deployer_def vector_initCodeHash_def)
  have n: "''xyz'' \<noteq> []" "''123456789'' \<noteq> []" by simp_all
  from invalid_termination_handling [OF h1] r [of "''xyz''"] n(1)
  have "calculate_address (constant_source (replicate 32 0)) (vector_request ''xyz'' None) =
     Some (Failure 400 ''Invalid termination. Must be 1-8 hexadecimal characters.'', 0)"
    by blast
  moreover from invalid_termination_handling [OF h2] r [of "''123456789''"] n(2)
  have "calculate_address (constant_source (replicate 32 0)) (vector_request ''123456789'' None) =
     Some (Failure 400 ''Invalid termination. Must be 1-8 hexadecimal characters.'', 0)"
    by blast
  moreover from invalid_termination_handling [OF h2] n(2)
  have "validate_termination (Some ''123456789'') =
     Report \<lparr>valid = False, cleaned = clean ''123456789'', difficulty = ''Unknown'',
             estimatedTime = ''Unknown'', maxLength = 8\<rparr>"
    by blast
  moreover have "length (clean []) = 0 \<or> 8 < length (clean [])"
    by (simp add: clean_Nil)
  from invalid_termination_handling [OF this]
  have "validate_termination (Some []) = Failure 400 ''termination is required''"
    by blast
  ultimately show ?thesis using h1 h2 clean_examples by simp
qed

lemma tier_rank_spec_tier:
  "tier_rank (fst (spec_tier n)) =
     (if n < 2 ^ 8 then 0 else if n < 2 ^ 12 then 1 else if n < 2 ^ 16 then 2
      else if n < 2 ^ 20 then 3 else 4)"
  by (simp add: spec_tier_def tier_rank_def)

lemma tier_rank_mono: "m \<le> n \<Longrightarrow> tier_rank (fst (spec_tier m)) \<le> tier_rank (fst (spec_tier n))"
  unfolding tier_rank_spec_tier by auto

lemma reported_difficulty_valid:
  "valid_termination (clean t) \<Longrightarrow> reported_difficulty t = fst (spec_tier (16 ^ length (clean t)))"
  by (simp add: reported_difficulty_def validate_valid)

text \<open>
  Claim C8. For every string whose cleaned form is a valid termination of length \<open>L\<close>,
  \<open>/validate-termination\<close> reports it valid, with the tier that the fixed thresholds
  \<open>2^8\<close>, \<open>2^12\<close>, \<open>2^16\<close>, \<open>2^20\<close> give to \<open>16^L\<close>; and a valid termination
  that is at least as long never gets a lower tier.
\<close>

theorem difficulty_tiers:
  assumes "valid_termination (clean t)"
  shows "validate_termination (Some t) =
           Report \<lparr>valid = True, cleaned = clean t,
                   difficulty = fst (spec_tier (16 ^ length (clean t))),
                   estimatedTime = snd (spec_tier (16 ^ length (clean t))), maxLength = 8\<rparr>
       \<and> (\<forall>u. valid_termination (clean u) \<and> length (clean t) \<le> length (clean u) \<longrightarrow>
              tier_rank (reported_difficulty t) \<le> tier_rank (reported_difficulty u))"
proof (intro conjI allI impI)
  show "validate_termination (Some t) =
           Report \<lparr>valid = True, cleaned = clean t,
                   difficulty = fst (spec_tier (16 ^ length (clean t))),
                   estimatedTime = snd (spec_tier (16 ^ length (clean t))), maxLength = 8\<rparr>"
    using assms by (rule validate_valid)
next
  fix u
  assume u: "valid_termination (clean u) \<and> length (clean t) \<le> length (clean u)"
  then have "(16::nat) ^ length (clean t) \<le> 16 ^ length (clean u)"
    by (simp add: power_increasing)
  then show "tier_rank (reported_difficulty t) \<le> tier_rank (reported_difficulty u)"
    using assms u by (simp add: reported_difficulty_valid tier_rank_mono)
qed

lemma tier_examples:
  "valid_termination (clean ''a'') \<and> valid_termination (clean ''DE:AD'') \<and> clean ''DE:AD'' = ''dead'' \<and>
   clean ''a'' = ''a'' \<and> length (clean ''a'') \<le> length (clean ''DE:AD'')"
  by code_simp

lemma tier_values:
  "spec_tier (16 ^ length ''a'') = (''Very Easy'', ''Instant'') \<and>
   spec_tier (16 ^ length ''dead'') = (''Hard'', ''Few hours'')"
  by (simp add: spec_tier_def)

theorem difficulty_tiers_witness:
  "valid_termination (clean ''a'') \<and> valid_termination (clean ''DE:AD'') \<and>
   length (clean ''a'') \<le> length (clean ''DE:AD'') \<and>
   validate_termination (Some ''a'') =
     Report \<lparr>valid = True, cleaned = ''a'', difficulty = ''Very Easy'',
             estimatedTime = ''Instant'', maxLength = 8\<rparr> \<and>
   tier_rank (reported_difficulty ''a'') \<le> tier_rank (reported_difficulty ''DE:AD'')"
proof -
  have v: "valid_termination (clean ''a'')" "valid_termination (clean ''DE:AD'')"
    and l: "length (clean ''a'') \<le> length (clean ''DE:AD'')"
    using tier_examples by blast+
  from difficulty_tiers [OF v(1)] v(2) l
  have "validate_termination (Some ''a'') =
           Report \<lparr>valid = True, cleaned = clean ''a'',
                   difficulty = fst (spec_tier (16 ^ length (clean ''a''))),
                   estimatedTime = snd (spec_tier (16 ^ length (clean ''a''))), maxLength = 8\<rparr>"
    and "tier_rank (reported_difficulty ''a'') \<le> tier_rank (reported_difficulty ''DE:AD'')"
    by blast+
  moreover have "clean ''a'' = ''a''" "spec_tier (16 ^ length ''a'') = (''Very Easy'', ''Instant'')"
    using tier_examples tier_values by blast+
  ultimately have "validate_termination (Some ''a'') =
     Report \<lparr>valid = True, cleaned = ''a'', difficulty = ''Very Easy'',
             estimatedTime = ''Instant'', maxLength = 8\<rparr>"
    and "tier_rank (reported_difficulty ''a'') \<le> tier_rank (reported_difficulty ''DE:AD'')"
    by simp_all
  with v l show ?thesis by blast
qed

lemma short_deployer:
  "even_hex ''0x00'' \<and> even_hex vector_salt \<and> even_hex vector_initCodeHash \<and> \<not> even_hex ''0x0'' \<and>
   \<not> isHexStringLen ''0x00'' 20 \<and>
   hex_decode (drop 2 ''0x00'') = [0] \<and> hex_decode (drop 2 vector_salt) = replicate 32 0 \<and>
   length (hex_decode (drop 2 vector_initCodeHash)) = 32"
  by code_simp

text \<open>
  Claim C9 as stated (a deployer that is not 20 bytes long is rejected) fails: for the
  one-byte deployer \<open>0x00\<close> the derivation returns an address, computed from a buffer
  of 66 bytes.
\<close>

theorem wrong_length_accepted_counterexample:
  "\<not> isHexStringLen ''0x00'' 20 \<and>
   calculateCREATE2Address ''0x00'' vector_salt vector_initCodeHash =
     Inr (create2_reference [0] (replicate 32 0) (hex_decode (drop 2 vector_initCodeHash)))"
  using calculate_even_hex [of "''0x00''" vector_salt vector_initCodeHash] short_deployer
  by simp

text \<open>
  Claim C9, as amended. For inputs that are strings, as the interface has them, the
  derivation checks that each of the three is a \<open>0x\<close> string of whole bytes and nothing
  else: it fails with an argument error exactly when one of them is not, and for such
  strings of any byte length it returns the checksummed low 20 bytes of the Keccak-256
  digest of \<open>0xff\<close> followed by the three inputs as they are, neither padded nor
  truncated. (Values that are not strings are outside this statement.)
\<close>

theorem derivation_checks_hex_only:
  "(even_hex d \<and> even_hex s \<and> even_hex h \<longrightarrow>
      calculateCREATE2Address d s h =
        Inr (create2_reference (hex_decode (drop 2 d)) (hex_decode (drop 2 s)) (hex_decode (drop 2 h))))
   \<and> (\<not> (even_hex d \<and> even_hex s \<and> even_hex h) \<longrightarrow>
        (\<exists>m. calculateCREATE2Address d s h = Inl (ArgumentError m)))"
  using calculate_even_hex [of d s h] calculate_not_even_hex [of d s h] by blast

theorem derivation_checks_hex_only_witness:
  "even_hex ''0x00'' \<and> even_hex vector_salt \<and> even_hex vector_initCodeHash \<and> \<not> even_hex ''0x0'' \<and>
   calculateCREATE2Address ''0x00'' vector_salt vector_initCodeHash =
     Inr (create2_reference (hex_decode (drop 2 ''0x00'')) (hex_decode (drop 2 vector_salt))
            (hex_decode (drop 2 vector_initCodeHash))) \<and>
   isl (calculateCREATE2Address ''0x0'' vector_salt vector_initCodeHash)"
proof -
  from derivation_checks_hex_only [of "''0x00''" vector_salt vector_initCodeHash] short_deployer
  have "calculateCREATE2Address ''0x00'' vector_salt vector_initCodeHash =
     Inr (create2_reference (hex_decode (drop 2 ''0x00'')) (hex_decode (drop 2 vector_salt))
            (hex_decode (drop 2 vector_initCodeHash)))"
    by blast
  moreover from derivation_checks_hex_only [of "''0x0''" vector_salt vector_initCodeHash] short_deployer
  have "\<exists>m. calculateCREATE2Address ''0x0'' vector_salt vector_initCodeHash = Inl (ArgumentError m)"
    by blast
  then have "isl (calculateCREATE2Address ''0x0'' vector_salt vector_initCodeHash)"
    by auto
  ultimately show ?thesis using short_deployer by blast
qed

end
